theory Spec2Isabelle
  imports Complex_Main "HOL-Library.Word"
begin

section \<open>JavaScript strings\<close>

text \<open>
  A JavaScript string is a sequence of UTF-16 code units.  The transcript cleaner only
  compares code units with constants and tests membership in character classes, so a
  string is a list of 16-bit words.  \<open>js\<close> turns an ASCII literal into such a list.
\<close>

type_synonym codeunit = "16 word"
type_synonym jsstring = "codeunit list"

definition js :: "string \<Rightarrow> jsstring" where
  "js s = map of_char s"

definition LF :: codeunit where "LF = 10"
definition CR :: codeunit where "CR = 13"

text \<open>
  The class \<open>\s\<close> of a regular expression and the set stripped by \<open>String.prototype.trim\<close>
  are the same: WhiteSpace (TAB, VT, FF, SP, NBSP, ZWNBSP and the category Zs) together with
  LineTerminator (LF, CR, LS, PS).
\<close>

definition isWhiteSpace :: "codeunit \<Rightarrow> bool" where
  "isWhiteSpace c =
     (c = 0x0009 \<or> c = 0x000A \<or> c = 0x000B \<or> c = 0x000C \<or> c = 0x000D \<or> c = 0x0020
      \<or> c = 0x00A0 \<or> c = 0x1680 \<or> (0x2000 \<le> c \<and> c \<le> 0x200A) \<or> c = 0x2028
      \<or> c = 0x2029 \<or> c = 0x202F \<or> c = 0x205F \<or> c = 0x3000 \<or> c = 0xFEFF)"

text \<open>The atom \<open>.\<close> (without the \<open>s\<close> flag) matches every code unit but a LineTerminator.\<close>

definition isLineTerminator :: "codeunit \<Rightarrow> bool" where
  "isLineTerminator c = (c = 0x000A \<or> c = 0x000D \<or> c = 0x2028 \<or> c = 0x2029)"

definition isDigit :: "codeunit \<Rightarrow> bool" where
  "isDigit c = (0x30 \<le> c \<and> c \<le> 0x39)"

text \<open>The word characters that \<open>\b\<close> looks at: \<open>[A-Za-z0-9_]\<close>.\<close>

definition isWordChar :: "codeunit \<Rightarrow> bool" where
  "isWordChar c =
     ((0x41 \<le> c \<and> c \<le> 0x5A) \<or> (0x61 \<le> c \<and> c \<le> 0x7A) \<or> isDigit c \<or> c = 0x5F)"

text \<open>
  \<open>[0-9a-f]\<close> under the \<open>i\<close> flag.  Without the \<open>u\<close> flag a code unit of 128 or more is
  never canonicalized to an ASCII one, so only the ASCII letters gain their other case.
\<close>

definition isHexCI :: "codeunit \<Rightarrow> bool" where
  "isHexCI c = (isDigit c \<or> (0x61 \<le> c \<and> c \<le> 0x66) \<or> (0x41 \<le> c \<and> c \<le> 0x46))"

text \<open>Canonicalize of the \<open>i\<close> flag, restricted to what an ASCII pattern can observe.\<close>

definition canonicalize :: "codeunit \<Rightarrow> codeunit" where
  "canonicalize c = (if 0x61 \<le> c \<and> c \<le> 0x7A then c - 0x20 else c)"

definition trim :: "jsstring \<Rightarrow> jsstring" where
  "trim s = rev (dropWhile isWhiteSpace (rev (dropWhile isWhiteSpace s)))"

text \<open>\<open>s.split(/\r?\n/)\<close>: a line ends at LF or at CR LF; a CR alone stays in its line.\<close>

fun splitLines :: "jsstring \<Rightarrow> jsstring list" where
  "splitLines [] = [[]]"
| "splitLines [c] = (if c = LF then [[], []] else [[c]])"
| "splitLines (c # d # cs) =
     (if c = LF then [] # splitLines (d # cs)
      else if c = CR \<and> d = LF then [] # splitLines cs
      else (case splitLines (d # cs) of
              [] \<Rightarrow> [[c]]
            | l # ls \<Rightarrow> (c # l) # ls))"

text \<open>\<open>lines.join('\n')\<close>.\<close>

fun joinLines :: "jsstring list \<Rightarrow> jsstring" where
  "joinLines [] = []"
| "joinLines [l] = l"
| "joinLines (l # k # ls) = l @ LF # joinLines (k # ls)"

section \<open>The regular expressions of the transcript cleaner\<close>

text \<open>
  A regular expression that is a fixed sequence of character classes, anchored at the start
  of its input: the rest of the input after the match, or \<open>None\<close>.
\<close>

fun matchSeq :: "(codeunit \<Rightarrow> bool) list \<Rightarrow> jsstring \<Rightarrow> jsstring option" where
  "matchSeq [] s = Some s"
| "matchSeq (p # ps) [] = None"
| "matchSeq (p # ps) (c # cs) = (if p c then matchSeq ps cs else None)"

definition lit :: "string \<Rightarrow> (codeunit \<Rightarrow> bool) list" where
  "lit s = map (\<lambda>p c. c = of_char p) s"

definition litCI :: "string \<Rightarrow> (codeunit \<Rightarrow> bool) list" where
  "litCI s = map (\<lambda>p c. canonicalize c = canonicalize (of_char p)) s"

text \<open>\<open>/^WEBVTT/i\<close>\<close>

definition isHeaderLine :: "jsstring \<Rightarrow> bool" where
  "isHeaderLine t = (matchSeq (litCI ''WEBVTT'') t \<noteq> None)"

text \<open>\<open>/^NOTE\b/i\<close>: after NOTE the input ends or goes on with a non-word character.\<close>

definition isNoteLine :: "jsstring \<Rightarrow> bool" where
  "isNoteLine t =
     (case matchSeq (litCI ''NOTE'') t of
        None \<Rightarrow> False
      | Some [] \<Rightarrow> True
      | Some (c # _) \<Rightarrow> \<not> isWordChar c)"

text \<open>\<open>\d{2}:\d{2}:\d{2}\.\d{3}\<close>\<close>

definition timestamp :: "(codeunit \<Rightarrow> bool) list" where
  "timestamp =
     [isDigit, isDigit] @ lit '':'' @ [isDigit, isDigit] @ lit '':'' @ [isDigit, isDigit]
     @ lit ''.'' @ [isDigit, isDigit, isDigit]"

text \<open>
  \<open>/^\d{2}:\d{2}:\d{2}\.\d{3}\s*-->\s*\d{2}:\d{2}:\d{2}\.\d{3}/\<close>.  Each \<open>\s*\<close> is followed by
  a character that is not white space, so the greedy match is the only one.
\<close>

definition isTimingLine :: "jsstring \<Rightarrow> bool" where
  "isTimingLine t =
     (case matchSeq timestamp t of
        None \<Rightarrow> False
      | Some r1 \<Rightarrow>
          (case matchSeq (lit ''-->'') (dropWhile isWhiteSpace r1) of
             None \<Rightarrow> False
           | Some r2 \<Rightarrow> matchSeq timestamp (dropWhile isWhiteSpace r2) \<noteq> None))"

text \<open>\<open>/^\d+$/\<close>\<close>

definition isNumericId :: "jsstring \<Rightarrow> bool" where
  "isNumericId t = (t \<noteq> [] \<and> list_all isDigit t)"

text \<open>\<open>/^[0-9a-f]{8}-[0-9a-f]{4}-[0-9a-f]{4}-[0-9a-f]{4}-[0-9a-f]{12}$/i\<close>\<close>

definition uuid :: "(codeunit \<Rightarrow> bool) list" where
  "uuid =
     replicate 8 isHexCI @ lit ''-'' @ replicate 4 isHexCI @ lit ''-'' @ replicate 4 isHexCI
     @ lit ''-'' @ replicate 4 isHexCI @ lit ''-'' @ replicate 12 isHexCI"

definition isUuidId :: "jsstring \<Rightarrow> bool" where
  "isUuidId t = (matchSeq uuid t = Some [])"

text \<open>
  \<open>s.replace(re, ...)\<close> for a global regular expression whose matches are never empty.
  The matcher \<open>m\<close> tries the expression at the start of its input and answers with the
  replacement text and the length of the match; the search goes on behind the match, or one
  code unit further where there is none.
\<close>

fun replaceAll :: "(jsstring \<Rightarrow> (jsstring \<times> nat) option) \<Rightarrow> jsstring \<Rightarrow> jsstring" where
  "replaceAll m [] = []"
| "replaceAll m (c # cs) =
     (case m (c # cs) of
        None \<Rightarrow> c # replaceAll m cs
      | Some (rep, n) \<Rightarrow> rep @ replaceAll m (drop (n - 1) cs))"

text \<open>
  \<open>/<v\s+([^>]+)>/gi\<close> with the replacement \<open>'$1: '\<close>.  Between \<open><v\<close> and the first \<open>>\<close>
  lies a segment that must split into white space and a non-empty group.  The greedy \<open>\s+\<close>
  takes all the leading white space; where the segment is white space only, backtracking
  gives its last code unit to the group.
\<close>

definition matchVoiceOpen :: "jsstring \<Rightarrow> (jsstring \<times> nat) option" where
  "matchVoiceOpen s =
     (case s of
        lt # v # rest \<Rightarrow>
          (let seg = takeWhile (\<lambda>c. c \<noteq> 0x3E) rest;
               ws = takeWhile isWhiteSpace seg
           in if lt \<noteq> 0x3C \<or> canonicalize v \<noteq> 0x56 then None
              else if length seg = length rest then None
              else if ws = [] then None
              else if length ws < length seg
                then Some (drop (length ws) seg @ js '': '', length seg + 3)
              else if 2 \<le> length seg
                then Some ([last seg] @ js '': '', length seg + 3)
              else None)
      | _ \<Rightarrow> None)"

text \<open>\<open>/<\/v>/gi\<close> with the empty replacement.\<close>

definition matchVoiceClose :: "jsstring \<Rightarrow> (jsstring \<times> nat) option" where
  "matchVoiceClose s =
     (case matchSeq (lit ''</'' @ litCI ''v'' @ lit ''>'') s of
        None \<Rightarrow> None
      | Some _ \<Rightarrow> Some ([], 4))"

text \<open>\<open>/<[^>]+>/g\<close> with the empty replacement.\<close>

definition matchTag :: "jsstring \<Rightarrow> (jsstring \<times> nat) option" where
  "matchTag s =
     (case s of
        lt # rest \<Rightarrow>
          (let seg = takeWhile (\<lambda>c. c \<noteq> 0x3E) rest
           in if lt \<noteq> 0x3C \<or> seg = [] \<or> length seg = length rest then None
              else Some ([], length seg + 2))
      | _ \<Rightarrow> None)"

text \<open>\<open>/\s{2,}/g\<close> with the replacement \<open>' '\<close>.\<close>

definition matchSpaces :: "jsstring \<Rightarrow> (jsstring \<times> nat) option" where
  "matchSpaces s =
     (let ws = takeWhile isWhiteSpace s
      in if 2 \<le> length ws then Some (js '' '', length ws) else None)"

text \<open>
  \<open>line.match(/^([^:]+):\s*(.*)/)\<close>: the two groups.  The first group is everything before the
  first colon and must not be empty; the second runs up to the first LineTerminator.
\<close>

definition speakerMatch :: "jsstring \<Rightarrow> (jsstring \<times> jsstring) option" where
  "speakerMatch line =
     (let g1 = takeWhile (\<lambda>c. c \<noteq> 0x3A) line;
          rest = dropWhile (\<lambda>c. c \<noteq> 0x3A) line
      in if g1 = [] \<or> rest = [] then None
         else Some (g1, takeWhile (\<lambda>c. \<not> isLineTerminator c) (dropWhile isWhiteSpace (tl rest))))"

section \<open>The transcript cleaner\<close>

text \<open>The dialogue branch of the loop body of \<open>cleanVttTranscript\<close>: the four replacements.\<close>

definition cleanDialogue :: "jsstring \<Rightarrow> jsstring" where
  "cleanDialogue trimmed =
     trim (replaceAll matchSpaces
            (replaceAll matchTag
              (replaceAll matchVoiceClose
                (replaceAll matchVoiceOpen trimmed))))"

text \<open>
  The loop of \<open>cleanVttTranscript\<close> over the lines, with the flag \<open>skipNote\<close>; the result is
  what the loop appends to \<open>cleanedLines\<close>.
\<close>

fun cleanLoop :: "bool \<Rightarrow> jsstring list \<Rightarrow> jsstring list" where
  "cleanLoop skipNote [] = []"
| "cleanLoop skipNote (line # lines) =
     (let trimmed = trim line
      in if trimmed = [] then cleanLoop False lines
         else if isHeaderLine trimmed then cleanLoop skipNote lines
         else if isNoteLine trimmed then cleanLoop True lines
         else if skipNote then cleanLoop skipNote lines
         else if isTimingLine trimmed then cleanLoop skipNote lines
         else if isNumericId trimmed then cleanLoop skipNote lines
         else if isUuidId trimmed then cleanLoop skipNote lines
         else (let cleaned = cleanDialogue trimmed
               in if 0 < length cleaned then cleaned # cleanLoop skipNote lines
                  else cleanLoop skipNote lines))"

text \<open>
  The loop of \<open>mergeSpeakerLines\<close>.  Its state is the array \<open>merged\<close> and the two variables
  \<open>currentSpeaker\<close> and \<open>currentText\<close>; a string is truthy when it is not empty.
\<close>

record mergeState =
  merged :: "jsstring list"
  currentSpeaker :: jsstring
  currentText :: jsstring

definition mergeStep :: "jsstring \<Rightarrow> mergeState \<Rightarrow> mergeState" where
  "mergeStep line st =
     (case speakerMatch line of
        Some (g1, g2) \<Rightarrow>
          (let speaker = trim g1; text = trim g2
           in if speaker = currentSpeaker st
                then st\<lparr>currentText := currentText st @ js '' '' @ text\<rparr>
              else \<lparr>merged = (if currentSpeaker st \<noteq> []
                               then merged st @ [currentSpeaker st @ js '': '' @ currentText st]
                               else merged st),
                    currentSpeaker = speaker,
                    currentText = text\<rparr>)
      | None \<Rightarrow>
          (if currentSpeaker st \<noteq> []
             then st\<lparr>currentText := currentText st @ js '' '' @ line\<rparr>
           else st\<lparr>merged := merged st @ [line]\<rparr>))"

fun mergeLoop :: "jsstring list \<Rightarrow> mergeState \<Rightarrow> mergeState" where
  "mergeLoop [] st = st"
| "mergeLoop (line # lines) st = mergeLoop lines (mergeStep line st)"

text \<open>The array \<open>merged\<close> once the last speaker is flushed.\<close>

definition mergedParagraphs :: "jsstring list \<Rightarrow> jsstring list" where
  "mergedParagraphs lines =
     (let st = mergeLoop lines \<lparr>merged = [], currentSpeaker = [], currentText = []\<rparr>
      in if currentSpeaker st \<noteq> []
           then merged st @ [currentSpeaker st @ js '': '' @ currentText st]
         else merged st)"

definition mergeSpeakerLines :: "jsstring list \<Rightarrow> jsstring" where
  "mergeSpeakerLines lines = (if length lines = 0 then [] else joinLines (mergedParagraphs lines))"

definition cleanedLines :: "jsstring \<Rightarrow> jsstring list" where
  "cleanedLines rawVtt = cleanLoop False (splitLines rawVtt)"

definition cleanVttTranscript :: "jsstring \<Rightarrow> jsstring" where
  "cleanVttTranscript rawVtt = mergeSpeakerLines (cleanedLines rawVtt)"

section \<open>Numbers\<close>

text \<open>
  A number of the language is a double: NaN, one of the two infinities, or a finite value,
  which is a rational number (the two zeros are not told apart).  The comparisons \<open><=\<close> and
  \<open>>=\<close> are false as soon as an operand is NaN, and \<open>Math.min\<close> is NaN as soon as an argument
  is.
\<close>

datatype jsnumber = NaN | NegInfinity | Finite rat | PosInfinity

fun lessEq :: "jsnumber \<Rightarrow> jsnumber \<Rightarrow> bool" where
  "lessEq NaN b = False"
| "lessEq a NaN = False"
| "lessEq NegInfinity b = True"
| "lessEq a PosInfinity = True"
| "lessEq (Finite x) (Finite y) = (x \<le> y)"
| "lessEq a b = False"

definition greaterEq :: "jsnumber \<Rightarrow> jsnumber \<Rightarrow> bool" where
  "greaterEq a b = lessEq b a"

definition mathMin :: "jsnumber \<Rightarrow> jsnumber \<Rightarrow> jsnumber" where
  "mathMin a b = (if a = NaN \<or> b = NaN then NaN else if lessEq a b then a else b)"

section \<open>The Graph client\<close>

text \<open>
  The records follow the interfaces of the client.  The calendar event's subject is read
  with \<open>?.\<close> and \<open>||\<close>, so it may be missing; \<open>onlineMeeting\<close> holds the \<open>joinUrl\<close> of the
  optional object.
\<close>

record OnlineMeeting =
  meeting_id :: jsstring
  subject :: jsstring
  startDateTime :: jsstring
  endDateTime :: jsstring
  joinWebUrl :: jsstring

record TranscriptInfo =
  transcript_id :: jsstring
  meetingId :: jsstring
  createdDateTime :: jsstring
  transcriptContentUrl :: jsstring

record CalendarEvent =
  event_subject :: "jsstring option"
  event_start :: jsstring
  event_end :: jsstring
  isOnlineMeeting :: bool
  onlineMeeting :: "jsstring option"

text \<open>What a function of the client can throw.\<close>

datatype exn =
  URIError
| FetchRejected
| GraphApiError nat jsstring
| BodyError

text \<open>
  What \<open>fetch\<close> does with a request: it rejects, or it answers with a status that is not ok
  and a body, or it answers ok; the body of an ok answer parses to a value of the type the
  caller casts it to, or reading it throws.
\<close>

datatype 'a body = Unreadable | Parsed 'a

datatype 'a reply = Rejected | NotOk nat jsstring | Ok "'a body"

text \<open>
  What a run leaves behind: the requests sent to Graph, in order, and a mark for each entry
  into the join-URL resolver.  Console output is not part of the model.
\<close>

datatype action =
  GetCalendarView jsstring jsstring jsnumber
| GetOnlineMeetings jsstring
| GetTranscripts jsstring
| GetContent jsstring jsstring
| ResolveCall jsstring

record 'w state =
  world :: 'w
  trace :: "action list"

text \<open>
  The surroundings of the client: the library functions of the language that the code calls
  and that are not modelled here in full (\<open>None\<close> is a thrown URIError; \<open>multiply\<close> is the
  product \<open>*\<close> of two numbers, with its rounding), the two timestamps
  that \<open>buildDateRange\<close> takes from the clock, and the Graph service, which answers each kind
  of request from its state \<open>'w\<close> and moves to a new state.
\<close>

record 'w env =
  toLowerCase :: "jsstring \<Rightarrow> jsstring"
  encodeURIComponent :: "jsstring \<Rightarrow> jsstring option"
  decodeURIComponent :: "jsstring \<Rightarrow> jsstring option"
  sinceISO :: jsstring
  aheadISO :: jsstring
  multiply :: "jsnumber \<Rightarrow> jsnumber \<Rightarrow> jsnumber"
  calendarView :: "jsstring \<Rightarrow> jsstring \<Rightarrow> jsnumber \<Rightarrow> 'w \<Rightarrow> CalendarEvent list option reply \<times> 'w"
  onlineMeetings :: "jsstring \<Rightarrow> 'w \<Rightarrow> OnlineMeeting list option reply \<times> 'w"
  transcripts :: "jsstring \<Rightarrow> 'w \<Rightarrow> TranscriptInfo list option reply \<times> 'w"
  transcriptContent :: "jsstring \<Rightarrow> jsstring \<Rightarrow> 'w \<Rightarrow> jsstring reply \<times> 'w"

text \<open>
  \<open>graphGet\<close>: sends the request \<open>a\<close>, whose answer the service computes with \<open>op\<close>; throws
  when \<open>fetch\<close> rejects and when the answer is not ok.
\<close>

definition graphGet ::
  "action \<Rightarrow> ('w \<Rightarrow> 'a reply \<times> 'w) \<Rightarrow> 'w state \<Rightarrow> (exn + 'a body) \<times> 'w state" where
  "graphGet a op s =
     (let (r, w) = op (world s);
          s1 = \<lparr>world = w, trace = trace s @ [a]\<rparr>
      in case r of
           Rejected \<Rightarrow> (Inl FetchRejected, s1)
         | NotOk status b \<Rightarrow> (Inl (GraphApiError status b), s1)
         | Ok res \<Rightarrow> (Inr res, s1))"

text \<open>\<open>res.json()\<close> and \<open>res.text()\<close>.\<close>

definition readBody :: "'a body \<Rightarrow> exn + 'a" where
  "readBody res = (case res of Unreadable \<Rightarrow> Inl BodyError | Parsed v \<Rightarrow> Inr v)"

text \<open>\<open>graphGetSafe\<close>: the \<open>try\<close> block holds both awaits, and the \<open>catch\<close> returns null.\<close>

definition graphGetSafe ::
  "action \<Rightarrow> ('w \<Rightarrow> 'a reply \<times> 'w) \<Rightarrow> 'w state \<Rightarrow> (exn + 'a option) \<times> 'w state" where
  "graphGetSafe a op s =
     (case graphGet a op s of
        (Inl err, s1) \<Rightarrow> (Inr None, s1)
      | (Inr res, s1) \<Rightarrow>
          (case readBody res of
             Inl err \<Rightarrow> (Inr None, s1)
           | Inr v \<Rightarrow> (Inr (Some v), s1)))"

definition fetchCalendarEvents ::
  "'w env \<Rightarrow> jsstring \<Rightarrow> jsstring \<Rightarrow> jsnumber \<Rightarrow> 'w state
   \<Rightarrow> (exn + CalendarEvent list) \<times> 'w state" where
  "fetchCalendarEvents E startDT endDT maxEvents s =
     (let n = mathMin maxEvents (Finite 100)
      in case graphGetSafe (GetCalendarView startDT endDT n) (calendarView E startDT endDT n) s of
           (Inl err, s1) \<Rightarrow> (Inl err, s1)
         | (Inr data, s1) \<Rightarrow>
             (Inr (case data of Some (Some events) \<Rightarrow> events | _ \<Rightarrow> []), s1))"

definition buildDateRange :: "'w env \<Rightarrow> jsstring option \<Rightarrow> jsstring \<times> jsstring" where
  "buildDateRange E filterDate =
     (case filterDate of
        Some d \<Rightarrow>
          (if d \<noteq> [] then (d @ js ''T00:00:00Z'', d @ js ''T23:59:59Z'')
           else (sinceISO E, aheadISO E))
      | None \<Rightarrow> (sinceISO E, aheadISO E))"

definition joinUrlFilter :: "jsstring \<Rightarrow> jsstring" where
  "joinUrlFilter joinUrl = js ''JoinWebUrl eq '' @ [0x27] @ joinUrl @ [0x27]"

definition tryResolveByJoinUrl ::
  "'w env \<Rightarrow> jsstring \<Rightarrow> 'w state \<Rightarrow> (exn + OnlineMeeting option) \<times> 'w state" where
  "tryResolveByJoinUrl E joinUrl s =
     (case encodeURIComponent E (joinUrlFilter joinUrl) of
        None \<Rightarrow> (Inl URIError, s)
      | Some f \<Rightarrow>
          (case graphGetSafe (GetOnlineMeetings f) (onlineMeetings E f) s of
             (Inl err, s1) \<Rightarrow> (Inl err, s1)
           | (Inr data, s1) \<Rightarrow>
               (Inr (case data of Some (Some (m # _)) \<Rightarrow> Some m | _ \<Rightarrow> None), s1)))"

definition resolveOnlineMeeting ::
  "'w env \<Rightarrow> jsstring \<Rightarrow> 'w state \<Rightarrow> (exn + OnlineMeeting option) \<times> 'w state" where
  "resolveOnlineMeeting E joinUrl s0 =
     (let s = s0\<lparr>trace := trace s0 @ [ResolveCall joinUrl]\<rparr>
      in case tryResolveByJoinUrl E joinUrl s of
           (Inl err, s1) \<Rightarrow> (Inl err, s1)
         | (Inr (Some result), s1) \<Rightarrow> (Inr (Some result), s1)
         | (Inr None, s1) \<Rightarrow>
             (case decodeURIComponent E joinUrl of
                None \<Rightarrow> (Inl URIError, s1)
              | Some decoded \<Rightarrow>
                  (if decoded \<noteq> joinUrl
                     then (case tryResolveByJoinUrl E decoded s1 of
                             (Inl err, s2) \<Rightarrow> (Inl err, s2)
                           | (Inr (Some result2), s2) \<Rightarrow> (Inr (Some result2), s2)
                           | (Inr None, s2) \<Rightarrow> (Inr None, s2))
                   else (Inr None, s1))))"

text \<open>\<open>e.onlineMeeting?.joinUrl\<close> as a condition: present and not the empty string.\<close>

definition hasJoinUrl :: "CalendarEvent \<Rightarrow> bool" where
  "hasJoinUrl e = (case onlineMeeting e of None \<Rightarrow> False | Some u \<Rightarrow> u \<noteq> [])"

definition resolveCalendarEvent ::
  "'w env \<Rightarrow> CalendarEvent \<Rightarrow> 'w state \<Rightarrow> (exn + OnlineMeeting option) \<times> 'w state" where
  "resolveCalendarEvent E event s =
     (case onlineMeeting event of
        None \<Rightarrow> (Inr None, s)
      | Some joinUrl \<Rightarrow>
          (if joinUrl = [] then (Inr None, s)
           else (case resolveOnlineMeeting E joinUrl s of
                   (Inl err, s1) \<Rightarrow> (Inl err, s1)
                 | (Inr None, s1) \<Rightarrow> (Inr None, s1)
                 | (Inr (Some meeting), s1) \<Rightarrow>
                     (Inr (Some (meeting\<lparr>subject :=
                        (case event_subject event of
                           None \<Rightarrow> subject meeting
                         | Some t \<Rightarrow> if t \<noteq> [] then t else subject meeting)\<rparr>)), s1))))"

text \<open>
  The loop of \<open>listMeetings\<close>, which leaves as soon as \<open>resolved.length >= limit\<close>; the limit
  is any number.
\<close>

fun listLoop ::
  "'w env \<Rightarrow> jsnumber \<Rightarrow> CalendarEvent list \<Rightarrow> OnlineMeeting list \<Rightarrow> 'w state
   \<Rightarrow> (exn + OnlineMeeting list) \<times> 'w state" where
  "listLoop E limit [] resolved s = (Inr resolved, s)"
| "listLoop E limit (event # events) resolved s =
     (if greaterEq (Finite (of_nat (length resolved))) limit then (Inr resolved, s)
      else (case resolveCalendarEvent E event s of
              (Inl err, s1) \<Rightarrow> (Inl err, s1)
            | (Inr None, s1) \<Rightarrow> listLoop E limit events resolved s1
            | (Inr (Some meeting), s1) \<Rightarrow> listLoop E limit events (resolved @ [meeting]) s1))"

definition listMeetings ::
  "'w env \<Rightarrow> jsnumber option \<Rightarrow> jsstring option \<Rightarrow> 'w state
   \<Rightarrow> (exn + OnlineMeeting list) \<times> 'w state" where
  "listMeetings E topOpt filterDate s =
     (let limit = (case topOpt of None \<Rightarrow> Finite 10 | Some t \<Rightarrow> t);
          (startDT, endDT) = buildDateRange E filterDate
      in case fetchCalendarEvents E startDT endDT
                (mathMin (multiply E limit (Finite 3)) (Finite 100)) s of
           (Inl err, s1) \<Rightarrow> (Inl err, s1)
         | (Inr events, s1) \<Rightarrow> listLoop E limit (filter hasJoinUrl events) [] s1)"

definition listTranscripts ::
  "'w env \<Rightarrow> jsstring \<Rightarrow> 'w state \<Rightarrow> (exn + TranscriptInfo list) \<times> 'w state" where
  "listTranscripts E mid s =
     (case graphGet (GetTranscripts mid) (transcripts E mid) s of
        (Inl err, s1) \<Rightarrow> (Inl err, s1)
      | (Inr res, s1) \<Rightarrow>
          (case readBody res of
             Inl err \<Rightarrow> (Inl err, s1)
           | Inr data \<Rightarrow>
               (Inr (map (\<lambda>t. t\<lparr>meetingId := mid\<rparr>) (case data of None \<Rightarrow> [] | Some ts \<Rightarrow> ts)),
                s1)))"

definition getTranscriptContent ::
  "'w env \<Rightarrow> jsstring \<Rightarrow> jsstring \<Rightarrow> 'w state \<Rightarrow> (exn + jsstring) \<times> 'w state" where
  "getTranscriptContent E mid tid s =
     (case graphGet (GetContent mid tid) (transcriptContent E mid tid) s of
        (Inl err, s1) \<Rightarrow> (Inl err, s1)
      | (Inr res, s1) \<Rightarrow> (readBody res, s1))"

text \<open>\<open>s.includes(needle)\<close>: the needle starts at some position of \<open>s\<close>.\<close>

fun startsWith :: "jsstring \<Rightarrow> jsstring \<Rightarrow> bool" where
  "startsWith s [] = True"
| "startsWith [] (n # ns) = False"
| "startsWith (c # cs) (n # ns) = (c = n \<and> startsWith cs ns)"

fun includesStr :: "jsstring \<Rightarrow> jsstring \<Rightarrow> bool" where
  "includesStr [] needle = (needle = [])"
| "includesStr (c # cs) needle = (startsWith (c # cs) needle \<or> includesStr cs needle)"

text \<open>The filter of \<open>findMeetingsByName\<close>.\<close>

definition nameMatch :: "'w env \<Rightarrow> jsstring \<Rightarrow> CalendarEvent \<Rightarrow> bool" where
  "nameMatch E needle e =
     ((case event_subject e of None \<Rightarrow> False | Some t \<Rightarrow> includesStr (toLowerCase E t) needle)
      \<and> hasJoinUrl e)"

text \<open>The loop of \<open>findMeetingsByName\<close> over the matching events.\<close>

fun resolveLoop ::
  "'w env \<Rightarrow> CalendarEvent list \<Rightarrow> OnlineMeeting list \<Rightarrow> 'w state
   \<Rightarrow> (exn + OnlineMeeting list) \<times> 'w state" where
  "resolveLoop E [] resolved s = (Inr resolved, s)"
| "resolveLoop E (event # events) resolved s =
     (case resolveCalendarEvent E event s of
        (Inl err, s1) \<Rightarrow> (Inl err, s1)
      | (Inr None, s1) \<Rightarrow> resolveLoop E events resolved s1
      | (Inr (Some meeting), s1) \<Rightarrow> resolveLoop E events (resolved @ [meeting]) s1)"

definition findMeetingsByName ::
  "'w env \<Rightarrow> jsstring \<Rightarrow> jsstring option \<Rightarrow> 'w state \<Rightarrow> (exn + OnlineMeeting list) \<times> 'w state" where
  "findMeetingsByName E meetingName meetingDate s =
     (let (startDT, endDT) = buildDateRange E meetingDate
      in case fetchCalendarEvents E startDT endDT (Finite 100) s of
           (Inl err, s1) \<Rightarrow> (Inl err, s1)
         | (Inr events, s1) \<Rightarrow>
             (let needle = toLowerCase E meetingName;
                  nameMatches = filter (nameMatch E needle) events
              in if length nameMatches = 0 then (Inr [], s1)
                 else resolveLoop E nameMatches [] s1))"

section \<open>The tool handlers of the server\<close>

text \<open>
  A tool result holds one text item and the flag \<open>isError\<close> (absent in the source where it
  is \<open>False\<close> here).  The arguments arrive as optional values; the limit is \<open>Some\<close> number when
  \<open>typeof args.limit\<close> is \<open>'number'\<close>, whole or not, and \<open>None\<close> otherwise.
\<close>

record toolResult =
  content_text :: jsstring
  isError :: bool

text \<open>A string used as a condition: present and not empty.\<close>

definition truthy :: "jsstring option \<Rightarrow> bool" where
  "truthy v = (case v of None \<Rightarrow> False | Some t \<Rightarrow> t \<noteq> [])"

text \<open>The text of the answer for an empty result of \<open>findMeetingsByName\<close>.\<close>

definition noMeetingText :: "jsstring \<Rightarrow> jsstring option \<Rightarrow> jsstring" where
  "noMeetingText meetingName meetingDate =
     js ''No meeting found matching '' @ [0x22] @ meetingName @ [0x22]
     @ (if truthy meetingDate then js '' on '' @ the meetingDate else [])
     @ js ''. Try broadening your search term or checking the date.''"

text \<open>The text of the answer for a meeting with an empty list of transcripts.\<close>

definition noTranscriptText :: "OnlineMeeting \<Rightarrow> jsstring" where
  "noTranscriptText meeting =
     js ''Meeting '' @ [0x22] @ subject meeting @ [0x22] @ js '' was found ('' @ startDateTime meeting
     @ js '') but has no transcript available. Ensure transcription was enabled during the meeting.''"

definition transcriptHeader :: "OnlineMeeting \<Rightarrow> TranscriptInfo \<Rightarrow> jsstring" where
  "transcriptHeader meeting t =
     js ''Meeting: '' @ subject meeting @ [LF] @ js ''Date: '' @ startDateTime meeting @ [LF]
     @ js ''Transcript URL: '' @ transcriptContentUrl t @ [LF]
     @ js ''Transcript ID: '' @ transcript_id t @ [LF]
     @ js ''Transcript created: '' @ createdDateTime t @ [LF]
     @ js ''---'' @ [LF, LF]"

definition handleGetMeetingTranscript ::
  "'w env \<Rightarrow> jsstring option \<Rightarrow> jsstring option \<Rightarrow> 'w state \<Rightarrow> (exn + toolResult) \<times> 'w state" where
  "handleGetMeetingTranscript E meetingName meetingDate s =
     (if \<not> truthy meetingName
        then (Inr \<lparr>content_text = js ''meetingName is required.'', isError = True\<rparr>, s)
      else (case findMeetingsByName E (the meetingName) meetingDate s of
              (Inl err, s1) \<Rightarrow> (Inl err, s1)
            | (Inr [], s1) \<Rightarrow>
                (Inr \<lparr>content_text = noMeetingText (the meetingName) meetingDate,
                      isError = False\<rparr>, s1)
            | (Inr (meeting # _), s1) \<Rightarrow>
                (case listTranscripts E (meeting_id meeting) s1 of
                   (Inl err, s2) \<Rightarrow> (Inl err, s2)
                 | (Inr [], s2) \<Rightarrow>
                     (Inr \<lparr>content_text = noTranscriptText meeting, isError = False\<rparr>, s2)
                 | (Inr (t # _), s2) \<Rightarrow>
                     (case getTranscriptContent E (meeting_id meeting) (transcript_id t) s2 of
                        (Inl err, s3) \<Rightarrow> (Inl err, s3)
                      | (Inr rawVtt, s3) \<Rightarrow>
                          (Inr \<lparr>content_text =
                                  transcriptHeader meeting t @ cleanVttTranscript rawVtt,
                                isError = False\<rparr>, s3)))))"

text \<open>
  The transcript checks of \<open>handleListRecentMeetings\<close>.  The callbacks under \<open>Promise.all\<close>
  send their requests in the order of the array; the service answers them here in that
  order.  A check that throws counts as no transcript.
\<close>

fun transcriptChecks ::
  "'w env \<Rightarrow> OnlineMeeting list \<Rightarrow> 'w state \<Rightarrow> (OnlineMeeting \<times> bool) list \<times> 'w state" where
  "transcriptChecks E [] s = ([], s)"
| "transcriptChecks E (m # ms) s =
     (case listTranscripts E (meeting_id m) s of
        (r, s1) \<Rightarrow>
          (case transcriptChecks E ms s1 of
             (rest, s2) \<Rightarrow>
               ((m, (case r of Inl err \<Rightarrow> False | Inr ts \<Rightarrow> 0 < length ts)) # rest, s2)))"

text \<open>A natural number as the decimal string that \<open>+\<close> makes of it.\<close>

fun showNat :: "nat \<Rightarrow> jsstring" where
  "showNat n = (if n < 10 then [0x30 + of_nat n] else showNat (n div 10) @ [0x30 + of_nat (n mod 10)])"

definition recentEntry :: "nat \<Rightarrow> OnlineMeeting \<times> bool \<Rightarrow> jsstring" where
  "recentEntry i r =
     (case r of (m, hasTranscript) \<Rightarrow>
        showNat (i + 1) @ js ''. **''
        @ (if subject m \<noteq> [] then subject m else js ''(No subject)'') @ js ''**'' @ [LF]
        @ js ''   Start: '' @ startDateTime m @ [LF]
        @ js ''   End: '' @ endDateTime m @ [LF]
        @ js ''   Transcript: '' @ (if hasTranscript then js ''Available'' else js ''Not available'')
        @ [LF]
        @ js ''   Meeting ID: '' @ meeting_id m)"

text \<open>\<open>entries.join('\n\n')\<close>.\<close>

fun joinEntries :: "jsstring list \<Rightarrow> jsstring" where
  "joinEntries [] = []"
| "joinEntries [l] = l"
| "joinEntries (l # k # ls) = l @ [LF, LF] @ joinEntries (k # ls)"

text \<open>What \<open>handleListRecentMeetings\<close> does with the outcome of \<open>listMeetings\<close>.\<close>

definition recentReply ::
  "'w env \<Rightarrow> jsstring option \<Rightarrow> (exn + OnlineMeeting list) \<times> 'w state
   \<Rightarrow> (exn + toolResult) \<times> 'w state" where
  "recentReply E date outcome =
     (case outcome of
        (Inl err, s1) \<Rightarrow> (Inl err, s1)
      | (Inr meetings, s1) \<Rightarrow>
          (if length meetings = 0
             then (Inr \<lparr>content_text =
                           (if truthy date then js ''No meetings found for '' @ the date @ js ''.''
                            else js ''No recent meetings found.''),
                         isError = False\<rparr>, s1)
           else (case transcriptChecks E meetings s1 of
                   (results, s2) \<Rightarrow>
                     (Inr \<lparr>content_text =
                             joinEntries (map (\<lambda>(i, r). recentEntry i r)
                                              (zip [0 ..< length results] results)),
                           isError = False\<rparr>, s2))))"

definition handleListRecentMeetings ::
  "'w env \<Rightarrow> jsstring option \<Rightarrow> jsnumber option \<Rightarrow> 'w state
   \<Rightarrow> (exn + toolResult) \<times> 'w state" where
  "handleListRecentMeetings E date limitArg s =
     (let limit = (case limitArg of None \<Rightarrow> Finite 10 | Some l \<Rightarrow> l);
          topN = mathMin limit (Finite 50)
      in recentReply E date (listMeetings E (Some topN) date s))"

section \<open>Library functions for running examples\<close>

text \<open>
  \<open>decodeURIComponent\<close> after ECMA-262 (Decode with an empty set of preserved escapes).
  Every \<open>%\<close> must start an escape of two hexadecimal digits, and the escaped octets must be
  the UTF-8 encoding of code points; anything else is a URIError.
\<close>

definition hexValue :: "codeunit \<Rightarrow> nat option" where
  "hexValue c =
     (if 0x30 \<le> c \<and> c \<le> 0x39 then Some (unat c - 0x30)
      else if 0x41 \<le> c \<and> c \<le> 0x46 then Some (unat c - 0x37)
      else if 0x61 \<le> c \<and> c \<le> 0x66 then Some (unat c - 0x57)
      else None)"

datatype uriToken = Unit codeunit | Octet nat

fun uriTokens :: "jsstring \<Rightarrow> uriToken list option" where
  "uriTokens [] = Some []"
| "uriTokens [c] = (if c = 0x25 then None else Some [Unit c])"
| "uriTokens [c, d] =
     (if c = 0x25 then None else map_option ((#) (Unit c)) (uriTokens [d]))"
| "uriTokens (c # d # e # cs) =
     (if c = 0x25
        then (case (hexValue d, hexValue e) of
                (Some a, Some b) \<Rightarrow> map_option ((#) (Octet (16 * a + b))) (uriTokens cs)
              | _ \<Rightarrow> None)
      else map_option ((#) (Unit c)) (uriTokens (d # e # cs)))"

definition continuation :: "nat \<Rightarrow> bool" where
  "continuation b = (0x80 \<le> b \<and> b < 0xC0)"

text \<open>UTF16EncodeCodePoint.\<close>

definition utf16 :: "nat \<Rightarrow> jsstring" where
  "utf16 v =
     (if v < 0x10000 then [of_nat v]
      else [of_nat (0xD800 + (v - 0x10000) div 0x400), of_nat (0xDC00 + (v - 0x10000) mod 0x400)])"

fun decodeTokens :: "uriToken list \<Rightarrow> jsstring option" where
  "decodeTokens [] = Some []"
| "decodeTokens (Unit c # ts) = map_option ((#) c) (decodeTokens ts)"
| "decodeTokens (Octet b # ts) =
     (if b < 0x80 then map_option ((#) (of_nat b)) (decodeTokens ts)
      else if b < 0xC0 then None
      else if b < 0xE0 then
        (case ts of
           Octet b1 # ts1 \<Rightarrow>
             (let v = (b - 0xC0) * 0x40 + (b1 - 0x80)
              in if continuation b1 \<and> 0x80 \<le> v
                   then map_option ((@) (utf16 v)) (decodeTokens ts1) else None)
         | _ \<Rightarrow> None)
      else if b < 0xF0 then
        (case ts of
           Octet b1 # Octet b2 # ts2 \<Rightarrow>
             (let v = (b - 0xE0) * 0x1000 + (b1 - 0x80) * 0x40 + (b2 - 0x80)
              in if continuation b1 \<and> continuation b2 \<and> 0x800 \<le> v
                    \<and> \<not> (0xD800 \<le> v \<and> v \<le> 0xDFFF)
                   then map_option ((@) (utf16 v)) (decodeTokens ts2) else None)
         | _ \<Rightarrow> None)
      else if b < 0xF8 then
        (case ts of
           Octet b1 # Octet b2 # Octet b3 # ts3 \<Rightarrow>
             (let v = (b - 0xF0) * 0x40000 + (b1 - 0x80) * 0x1000 + (b2 - 0x80) * 0x40
                      + (b3 - 0x80)
              in if continuation b1 \<and> continuation b2 \<and> continuation b3 \<and> 0x10000 \<le> v
                    \<and> v \<le> 0x10FFFF
                   then map_option ((@) (utf16 v)) (decodeTokens ts3) else None)
         | _ \<Rightarrow> None)
      else None)"

definition ecmaDecodeURIComponent :: "jsstring \<Rightarrow> jsstring option" where
  "ecmaDecodeURIComponent s =
     (case uriTokens s of None \<Rightarrow> None | Some ts \<Rightarrow> decodeTokens ts)"

text \<open>
  \<open>encodeURIComponent\<close> after ECMA-262 (Encode; letters, digits and \<open>-_.!~*'()\<close> stay).  A
  surrogate without its partner is a URIError.
\<close>

definition uriUnreserved :: "codeunit \<Rightarrow> bool" where
  "uriUnreserved c =
     ((0x41 \<le> c \<and> c \<le> 0x5A) \<or> (0x61 \<le> c \<and> c \<le> 0x7A) \<or> (0x30 \<le> c \<and> c \<le> 0x39)
      \<or> c \<in> set (js ''-_.!~*()'') \<or> c = 0x27)"

definition hexUpper :: "nat \<Rightarrow> codeunit" where
  "hexUpper d = (if d < 10 then of_nat (0x30 + d) else of_nat (0x37 + d))"

definition percent :: "nat \<Rightarrow> jsstring" where
  "percent b = [0x25, hexUpper (b div 16), hexUpper (b mod 16)]"

definition utf8 :: "nat \<Rightarrow> nat list" where
  "utf8 v =
     (if v < 0x80 then [v]
      else if v < 0x800 then [0xC0 + v div 0x40, 0x80 + v mod 0x40]
      else if v < 0x10000 then [0xE0 + v div 0x1000, 0x80 + (v div 0x40) mod 0x40, 0x80 + v mod 0x40]
      else [0xF0 + v div 0x40000, 0x80 + (v div 0x1000) mod 0x40, 0x80 + (v div 0x40) mod 0x40,
            0x80 + v mod 0x40])"

fun ecmaEncodeURIComponent :: "jsstring \<Rightarrow> jsstring option" where
  "ecmaEncodeURIComponent [] = Some []"
| "ecmaEncodeURIComponent [c] =
     (if uriUnreserved c then Some [c]
      else if 0xD800 \<le> c \<and> c \<le> 0xDFFF then None
      else Some (concat (map percent (utf8 (unat c)))))"
| "ecmaEncodeURIComponent (c # d # cs) =
     (if uriUnreserved c then map_option ((#) c) (ecmaEncodeURIComponent (d # cs))
      else if 0xDC00 \<le> c \<and> c \<le> 0xDFFF then None
      else if 0xD800 \<le> c \<and> c \<le> 0xDBFF then
        (if 0xDC00 \<le> d \<and> d \<le> 0xDFFF
           then map_option
                  ((@) (concat (map percent
                     (utf8 ((unat c - 0xD800) * 0x400 + (unat d - 0xDC00) + 0x10000)))))
                  (ecmaEncodeURIComponent cs)
         else None)
      else map_option ((@) (concat (map percent (utf8 (unat c)))))
             (ecmaEncodeURIComponent (d # cs)))"

text \<open>
  \<open>toLowerCase\<close> on the ASCII letters only: it is \<open>String.prototype.toLowerCase\<close> on strings
  of ASCII code units, which is all the examples use.
\<close>

definition asciiToLowerCase :: "jsstring \<Rightarrow> jsstring" where
  "asciiToLowerCase s = map (\<lambda>c. if 0x41 \<le> c \<and> c \<le> 0x5A then c + 0x20 else c) s"

section \<open>Notions for the properties of the cleaner\<close>

text \<open>
  A line that the loop of \<open>cleanVttTranscript\<close> drops whatever came before it: blank once
  trimmed, the header, the opener of a comment block, a timing line or a cue identifier.
\<close>

definition metadataLine :: "jsstring \<Rightarrow> bool" where
  "metadataLine line =
     (let t = trim line
      in t = [] \<or> isHeaderLine t \<or> isNoteLine t \<or> isTimingLine t \<or> isNumericId t \<or> isUuidId t)"

text \<open>
  A comment block runs from its opener up to the next blank line.  For every line,
  \<open>inCommentBlock\<close> tells whether the line lies in a comment block, the opener included;
  its first argument tells whether a block is open before the first line.
\<close>

fun inCommentBlock :: "bool \<Rightarrow> jsstring list \<Rightarrow> bool list" where
  "inCommentBlock inside [] = []"
| "inCommentBlock inside (line # lines) =
     (let t = trim line
      in if t = [] then False # inCommentBlock False lines
         else if isNoteLine t then True # inCommentBlock True lines
         else inside # inCommentBlock inside lines)"

text \<open>
  A transcript without dialogue: every line lies in a comment block, whatever it holds, or
  is a metadata line.
\<close>

definition metadataOnly :: "jsstring list \<Rightarrow> bool" where
  "metadataOnly lines =
     list_all (\<lambda>(line, inBlock). inBlock \<or> metadataLine line)
       (zip lines (inCommentBlock False lines))"

text \<open>
  The paragraphs of the cleaned transcript are the entries of \<open>merged\<close>.  The speaker of a
  paragraph is read off with the expression of the merge pass; a paragraph that the
  expression does not match has no speaker.
\<close>

definition cleanedParagraphs :: "jsstring \<Rightarrow> jsstring list" where
  "cleanedParagraphs rawVtt = mergedParagraphs (cleanedLines rawVtt)"

definition speakerOf :: "jsstring \<Rightarrow> jsstring option" where
  "speakerOf p = (case speakerMatch p of None \<Rightarrow> None | Some (g1, g2) \<Rightarrow> Some (trim g1))"

text \<open>No paragraph with a speaker is followed by a paragraph of the same speaker.\<close>

fun distinctAdjacent :: "jsstring list \<Rightarrow> bool" where
  "distinctAdjacent (p # q # ps) =
     ((speakerOf p = None \<or> speakerOf p \<noteq> speakerOf q) \<and> distinctAdjacent (q # ps))"
| "distinctAdjacent ps = True"

text \<open>What the cleaning loop hands to the merge pass, and what the merge pass keeps.\<close>

definition goodLine :: "jsstring \<Rightarrow> bool" where
  "goodLine l = (l \<noteq> [] \<and> \<not> isWhiteSpace (hd l))"

definition cleanSpeaker :: "jsstring \<Rightarrow> bool" where
  "cleanSpeaker sp =
     (sp \<noteq> [] \<and> \<not> isWhiteSpace (hd sp) \<and> \<not> isWhiteSpace (last sp) \<and> 0x3A \<notin> set sp)"

definition mergeInv :: "mergeState \<Rightarrow> bool" where
  "mergeInv st =
     (distinctAdjacent (merged st)
      \<and> (currentSpeaker st = [] \<longrightarrow> (\<forall>p\<in>set (merged st). speakerOf p = None))
      \<and> (currentSpeaker st \<noteq> [] \<longrightarrow>
           cleanSpeaker (currentSpeaker st)
           \<and> (merged st = [] \<or> speakerOf (last (merged st)) \<noteq> Some (currentSpeaker st))))"

text \<open>
  Paragraphs that a second run of the cleaner leaves as they are.  All of them are trimmed
  and not empty, without \<open><\<close>, without line feed, without two white space characters in a
  row, and not lines that the loop drops.  A paragraph of a speaker is \<open>Speaker: text\<close> with
  one space behind the colon, speaker and text trimmed and the text not empty; that it is
  the two groups of the merge expression around \<open>: \<close> says that the speaker has no colon and
  the text no line terminator.  A paragraph without speaker is one that the merge expression
  does not match.
\<close>

fun noDoubleSpace :: "jsstring \<Rightarrow> bool" where
  "noDoubleSpace (a # b # cs) = ((\<not> isWhiteSpace a \<or> \<not> isWhiteSpace b) \<and> noDoubleSpace (b # cs))"
| "noDoubleSpace cs = True"

definition plainLine :: "jsstring \<Rightarrow> bool" where
  "plainLine p =
     (trim p = p \<and> p \<noteq> [] \<and> 0x3C \<notin> set p \<and> LF \<notin> set p \<and> noDoubleSpace p
      \<and> \<not> metadataLine p)"

definition settledParagraph :: "jsstring \<Rightarrow> bool" where
  "settledParagraph p =
     (plainLine p
      \<and> (case speakerMatch p of
            None \<Rightarrow> True
          | Some (g1, g2) \<Rightarrow>
              p = g1 @ js '': '' @ g2 \<and> trim g1 = g1 \<and> trim g2 = g2 \<and> g2 \<noteq> []))"

text \<open>The paragraphs without speaker all come before the first paragraph of a speaker.\<close>

definition leadingUnattributed :: "jsstring list \<Rightarrow> bool" where
  "leadingUnattributed ps =
     list_all (\<lambda>p. speakerOf p \<noteq> None) (dropWhile (\<lambda>p. speakerOf p = None) ps)"

text \<open>The array \<open>merged\<close> as the end of \<open>mergeSpeakerLines\<close> would leave it.\<close>

definition flushed :: "mergeState \<Rightarrow> jsstring list" where
  "flushed st =
     (if currentSpeaker st \<noteq> []
        then merged st @ [currentSpeaker st @ js '': '' @ currentText st] else merged st)"

section \<open>Notions for the properties of the Graph client\<close>

text \<open>What a run from \<open>s\<close> to \<open>s'\<close> has added to the trace.\<close>

definition performed :: "'w state \<Rightarrow> 'w state \<Rightarrow> action list" where
  "performed s s' = drop (length (trace s)) (trace s')"

text \<open>The join URLs the resolver was entered with, and the lookups sent to Graph.\<close>

fun resolveCalls :: "action list \<Rightarrow> jsstring list" where
  "resolveCalls [] = []"
| "resolveCalls (ResolveCall u # as) = u # resolveCalls as"
| "resolveCalls (a # as) = resolveCalls as"

fun lookups :: "action list \<Rightarrow> jsstring list" where
  "lookups [] = []"
| "lookups (GetOnlineMeetings f # as) = f # lookups as"
| "lookups (a # as) = lookups as"

fun contentRequests :: "action list \<Rightarrow> (jsstring \<times> jsstring) list" where
  "contentRequests [] = []"
| "contentRequests (GetContent m t # as) = (m, t) # contentRequests as"
| "contentRequests (a # as) = contentRequests as"

text \<open>
  The events on which the loop of \<open>listMeetings\<close> calls the resolver without getting a
  meeting: the loop once more, keeping those events instead of the meetings.
\<close>

fun failedAttempts ::
  "'w env \<Rightarrow> jsnumber \<Rightarrow> CalendarEvent list \<Rightarrow> OnlineMeeting list \<Rightarrow> 'w state
   \<Rightarrow> CalendarEvent list" where
  "failedAttempts E limit [] resolved s = []"
| "failedAttempts E limit (event # events) resolved s =
     (if greaterEq (Finite (of_nat (length resolved))) limit then []
      else (case resolveCalendarEvent E event s of
              (Inl err, s1) \<Rightarrow> [event]
            | (Inr None, s1) \<Rightarrow> event # failedAttempts E limit events resolved s1
            | (Inr (Some meeting), s1) \<Rightarrow> failedAttempts E limit events (resolved @ [meeting]) s1))"

text \<open>The state on entry to the resolver, with its mark.\<close>

definition entered :: "jsstring \<Rightarrow> 'w state \<Rightarrow> 'w state" where
  "entered joinUrl s = s\<lparr>trace := trace s @ [ResolveCall joinUrl]\<rparr>"

definition joinUrlOf :: "CalendarEvent \<Rightarrow> jsstring" where
  "joinUrlOf e = (case onlineMeeting e of None \<Rightarrow> [] | Some u \<Rightarrow> u)"

text \<open>
  The limit that a call works with: the number given, or 10.  A whole number is a finite
  number without a fraction.
\<close>

definition limitOf :: "jsnumber option \<Rightarrow> jsnumber" where
  "limitOf given = (case given of None \<Rightarrow> Finite 10 | Some n \<Rightarrow> n)"

definition whole :: "int \<Rightarrow> jsnumber" where
  "whole k = Finite (of_int k)"

text \<open>
  The product of two numbers without rounding, which is the product of the language where
  the result is a double, as for the small whole numbers and halves of the examples.
\<close>

fun exactProduct :: "jsnumber \<Rightarrow> jsnumber \<Rightarrow> jsnumber" where
  "exactProduct (Finite x) (Finite y) = Finite (x * y)"
| "exactProduct NaN b = NaN"
| "exactProduct a NaN = NaN"
| "exactProduct a b =
     (if a = Finite 0 \<or> b = Finite 0 then NaN
      else if lessEq a (Finite 0) = lessEq b (Finite 0) then PosInfinity
      else NegInfinity)"

text \<open>
  A service without state for the examples: it answers the calendar request with \<open>cal\<close> and
  the other requests as the functions \<open>om\<close>, \<open>tr\<close> and \<open>ct\<close> say.
\<close>

definition scriptedEnv ::
  "CalendarEvent list option reply \<Rightarrow> (jsstring \<Rightarrow> OnlineMeeting list option reply)
   \<Rightarrow> (jsstring \<Rightarrow> TranscriptInfo list option reply) \<Rightarrow> (jsstring \<Rightarrow> jsstring \<Rightarrow> jsstring reply)
   \<Rightarrow> unit env" where
  "scriptedEnv cal om tr ct =
     \<lparr>toLowerCase = asciiToLowerCase,
      encodeURIComponent = ecmaEncodeURIComponent,
      decodeURIComponent = ecmaDecodeURIComponent,
      sinceISO = js ''2026-10-03T09:00:00.000Z'',
      aheadISO = js ''2026-11-09T09:00:00.000Z'',
      multiply = exactProduct,
      calendarView = (\<lambda>startDT endDT n w. (cal, w)),
      onlineMeetings = (\<lambda>f w. (om f, w)),
      transcripts = (\<lambda>m w. (tr m, w)),
      transcriptContent = (\<lambda>m t w. (ct m t, w))\<rparr>"

definition start :: "unit state" where
  "start = \<lparr>world = (), trace = []\<rparr>"

definition weeklySync :: OnlineMeeting where
  "weeklySync =
     \<lparr>meeting_id = js ''MSo1'', subject = js ''Sync (Graph)'',
      startDateTime = js ''2026-10-30T10:00:00Z'', endDateTime = js ''2026-10-30T10:30:00Z'',
      joinWebUrl = js ''https://teams.example/l/meetup-join/19:meeting_a''\<rparr>"

text \<open>Answers of the lookup: nothing found, and one meeting for one encoded filter.\<close>

definition nothingFound :: "jsstring \<Rightarrow> OnlineMeeting list option reply" where
  "nothingFound f = Ok (Parsed (Some []))"

definition foundFor :: "jsstring \<Rightarrow> OnlineMeeting \<Rightarrow> jsstring \<Rightarrow> OnlineMeeting list option reply" where
  "foundFor joinUrl m f =
     (if Some f = ecmaEncodeURIComponent (joinUrlFilter joinUrl) then Ok (Parsed (Some [m]))
      else Ok (Parsed (Some [])))"

definition noTranscripts :: "jsstring \<Rightarrow> TranscriptInfo list option reply" where
  "noTranscripts m = Ok (Parsed (Some []))"

definition noContent :: "jsstring \<Rightarrow> jsstring \<Rightarrow> jsstring reply" where
  "noContent m t = NotOk 404 []"

definition calendarEvent :: "jsstring option \<Rightarrow> jsstring option \<Rightarrow> CalendarEvent" where
  "calendarEvent subj joinUrl =
     \<lparr>event_subject = subj, event_start = js ''2026-10-30T10:00:00.0000000'',
      event_end = js ''2026-10-30T10:30:00.0000000'', isOnlineMeeting = True,
      onlineMeeting = joinUrl\<rparr>"

text \<open>Join URLs of the examples: one with an escape, its decoded form, and two others.
  The last holds the octet E9 alone, which is not UTF-8.\<close>

definition encodedUrl :: jsstring where "encodedUrl = js ''https://t.example/19%3aa''"
definition decodedUrl :: jsstring where "decodedUrl = js ''https://t.example/19:a''"
definition plainUrl :: jsstring where "plainUrl = js ''https://t.example/b''"
definition malformedUrl :: jsstring where "malformedUrl = js ''https://m.example/r%E9''"

text \<open>A service that knows the decoded URL only, one that knows the plain URL, one that
  finds a meeting for every lookup, and one that refuses every lookup with status 403.\<close>

definition decodedOnly :: "CalendarEvent list \<Rightarrow> unit env" where
  "decodedOnly events =
     scriptedEnv (Ok (Parsed (Some events))) (foundFor decodedUrl weeklySync) noTranscripts noContent"

definition plainOnly :: "CalendarEvent list \<Rightarrow> unit env" where
  "plainOnly events =
     scriptedEnv (Ok (Parsed (Some events))) (foundFor plainUrl weeklySync) noTranscripts noContent"

definition findsAll :: "CalendarEvent list \<Rightarrow> unit env" where
  "findsAll events =
     scriptedEnv (Ok (Parsed (Some events))) (\<lambda>f. Ok (Parsed (Some [weeklySync]))) noTranscripts
       noContent"

definition forbidden :: "CalendarEvent list \<Rightarrow> unit env" where
  "forbidden events =
     scriptedEnv (Ok (Parsed (Some events))) (\<lambda>f. NotOk 403 (js ''Forbidden'')) noTranscripts
       noContent"

text \<open>Four calendar events, three of them with a join URL.\<close>

definition fourEvents :: "CalendarEvent list" where
  "fourEvents =
     [calendarEvent (Some (js ''A'')) (Some plainUrl),
      calendarEvent (Some (js ''B'')) None,
      calendarEvent (Some (js ''C'')) (Some decodedUrl),
      calendarEvent (Some (js ''D'')) (Some encodedUrl)]"
section \<open>The literal case of the cleaner\<close>

text \<open>
  C2.  The cleaner applied to the transcript with the header \<open>WEBVTT\<close> and the three cues
  numbered 1, 2 and 3, with their timing lines, in which Alice speaks twice and Bob once,
  returns the two lines \<open>Alice: Hello there. How are you?\<close> and \<open>Bob: I'm fine thanks.\<close>: the
  header, the timing lines and the cue identifiers are gone, the voice tags have become
  speaker prefixes, and the two lines of Alice are one paragraph.
\<close>

theorem cleanVttTranscript_literal_case:
  "cleanVttTranscript
     (js ''WEBVTT'' @ [LF] @ [LF]
      @ js ''1'' @ [LF]
      @ js ''00:00:00.000 --> 00:00:02.000'' @ [LF]
      @ js ''<v Alice>Hello there.</v>'' @ [LF] @ [LF]
      @ js ''2'' @ [LF]
      @ js ''00:00:02.000 --> 00:00:04.000'' @ [LF]
      @ js ''<v Alice>How are you?</v>'' @ [LF] @ [LF]
      @ js ''3'' @ [LF]
      @ js ''00:00:04.000 --> 00:00:06.000'' @ [LF]
      @ js ''<v Bob>I'' @ [0x27] @ js ''m fine thanks.</v>'')
   = js ''Alice: Hello there. How are you?'' @ [LF] @ js ''Bob: I'' @ [0x27] @ js ''m fine thanks.''"
  by code_simp

section \<open>Trimming\<close>

lemma trim_Nil: "trim [] = []" by (simp add: trim_def)

lemma dropWhile_hd_not: "dropWhile P xs \<noteq> [] \<Longrightarrow> \<not> P (hd (dropWhile P xs))"
  by (induction xs) auto

lemma trim_last: "trim x \<noteq> [] \<Longrightarrow> \<not> isWhiteSpace (last (trim x))"
  unfolding trim_def using dropWhile_hd_not[of isWhiteSpace "rev (dropWhile isWhiteSpace x)"]
  by (simp add: last_rev)

lemma rev_dropWhile_rev_hd:
  "xs \<noteq> [] \<Longrightarrow> \<not> P (hd xs) \<Longrightarrow> rev (dropWhile P (rev xs)) \<noteq> [] \<and> hd (rev (dropWhile P (rev xs))) = hd xs"
proof (induction xs rule: rev_induct)
  case Nil then show ?case by simp
next
  case (snoc x xs)
  show ?case
  proof (cases "xs = []")
    case True with snoc.prems show ?thesis by simp
  next
    case False
    with snoc show ?thesis by (auto simp: hd_append)
  qed
qed

lemma trim_hd: "trim x \<noteq> [] \<Longrightarrow> \<not> isWhiteSpace (hd (trim x))"
proof -
  assume a: "trim x \<noteq> []"
  let ?d = "dropWhile isWhiteSpace x"
  from a have d: "?d \<noteq> []" by (cases "?d = []") (simp_all add: trim_def)
  then have "\<not> isWhiteSpace (hd ?d)" by (rule dropWhile_hd_not)
  with d rev_dropWhile_rev_hd[of ?d isWhiteSpace] show ?thesis by (simp add: trim_def)
qed

lemma trim_id: "x \<noteq> [] \<Longrightarrow> \<not> isWhiteSpace (hd x) \<Longrightarrow> \<not> isWhiteSpace (last x) \<Longrightarrow> trim x = x"
proof -
  assume a: "x \<noteq> []" "\<not> isWhiteSpace (hd x)" "\<not> isWhiteSpace (last x)"
  then have 1: "dropWhile isWhiteSpace x = x" by (cases x) auto
  from a have "rev x \<noteq> []" "\<not> isWhiteSpace (hd (rev x))" by (auto simp: hd_rev)
  then have "dropWhile isWhiteSpace (rev x) = rev x" by (cases "rev x") auto
  with 1 show ?thesis by (simp add: trim_def)
qed
section \<open>Transcripts without dialogue\<close>

text \<open>A header line does not open a comment block.\<close>

lemma header_not_note: "isHeaderLine t \<Longrightarrow> \<not> isNoteLine t"
  by (cases t) (auto simp: isHeaderLine_def isNoteLine_def litCI_def canonicalize_def
        split: option.splits list.splits if_splits)

text \<open>The loop keeps nothing of a comment block and nothing of the metadata lines.\<close>

lemma cleanLoop_in_block:
  "list_all (\<lambda>(line, inBlock). inBlock \<or> metadataLine line) (zip ls (inCommentBlock b ls))
   \<Longrightarrow> cleanLoop b ls = []"
proof (induction ls arbitrary: b)
  case Nil
  show ?case by simp
next
  case (Cons l ls)
  let ?t = "trim l"
  have step: "inCommentBlock b (l # ls) =
      (if ?t = [] then False # inCommentBlock False ls
       else if isNoteLine ?t then True # inCommentBlock True ls
       else b # inCommentBlock b ls)" by (simp add: Let_def)
  show ?case
  proof (cases "?t = []")
    case True
    with Cons.prems step have "cleanLoop False ls = []" by (intro Cons.IH) simp
    with True show ?thesis by simp
  next
    case blank: False
    show ?thesis
    proof (cases "isNoteLine ?t")
      case True
      with blank Cons.prems step have "cleanLoop True ls = []" by (intro Cons.IH) simp
      with blank True header_not_note[of ?t] show ?thesis by (auto simp: Let_def)
    next
      case plain: False
      with blank Cons.prems step have rest: "cleanLoop b ls = []" by (intro Cons.IH) simp
      from blank plain Cons.prems step have "b \<or> metadataLine l" by simp
      with blank plain rest show ?thesis by (auto simp: metadataLine_def Let_def)
    qed
  qed
qed

lemma metadataLines_metadataOnly: "list_all metadataLine ls \<Longrightarrow> metadataOnly ls"
proof -
  have "list_all metadataLine ls \<Longrightarrow>
        list_all (\<lambda>(line, inBlock). inBlock \<or> metadataLine line) (zip ls (inCommentBlock b ls))" for b
    by (induction ls arbitrary: b) (auto simp: Let_def)
  then show "list_all metadataLine ls \<Longrightarrow> metadataOnly ls" by (simp add: metadataOnly_def)
qed

text \<open>
  C10.  The cleaner is a total function on strings: each step of the source (split, trim,
  test, replace, match, push, join) is defined on every string, and the model has no error
  value.  On an input that holds only metadata it returns the empty string: every line is
  blank, a header line, a timing line, a numeric or UUID cue identifier, or lies in a comment
  block, which runs from its opener over lines of any content up to the next blank line.  So
  it does on the empty string.
\<close>

theorem cleanVttTranscript_metadata_only:
  "(metadataOnly (splitLines rawVtt) \<longrightarrow> cleanVttTranscript rawVtt = [])
   \<and> cleanVttTranscript [] = []"
  by (simp add: cleanVttTranscript_def cleanedLines_def cleanLoop_in_block metadataOnly_def
        mergeSpeakerLines_def trim_def)

theorem cleanVttTranscript_metadata_only_witness:
  "metadataOnly
     (splitLines
       (js ''WEBVTT'' @ [LF, LF] @ js ''NOTE made by Teams'' @ [CR, LF]
        @ js ''internal remark'' @ [LF] @ js ''<v Bob>not said</v>'' @ [LF, LF] @ js ''7'' @ [LF]
        @ js ''00:00:00.000 --> 00:00:02.000 align:start'' @ [LF] @ js ''   '' @ [LF]
        @ js ''617c22e3-ccc5-445a-b806-be21f6abb3be'' @ [LF]))
   \<and> map metadataLine
       (splitLines
         (js ''WEBVTT'' @ [LF, LF] @ js ''NOTE made by Teams'' @ [CR, LF]
          @ js ''internal remark'' @ [LF] @ js ''<v Bob>not said</v>'' @ [LF, LF] @ js ''7'' @ [LF]
          @ js ''00:00:00.000 --> 00:00:02.000 align:start'' @ [LF] @ js ''   '' @ [LF]
          @ js ''617c22e3-ccc5-445a-b806-be21f6abb3be'' @ [LF]))
       = [True, True, True, False, False, True, True, True, True, True, True]
   \<and> cleanVttTranscript
       (js ''WEBVTT'' @ [LF, LF] @ js ''NOTE made by Teams'' @ [CR, LF]
        @ js ''internal remark'' @ [LF] @ js ''<v Bob>not said</v>'' @ [LF, LF] @ js ''7'' @ [LF]
        @ js ''00:00:00.000 --> 00:00:02.000 align:start'' @ [LF] @ js ''   '' @ [LF]
        @ js ''617c22e3-ccc5-445a-b806-be21f6abb3be'' @ [LF]) = []"
proof -
  let ?x = "js ''WEBVTT'' @ [LF, LF] @ js ''NOTE made by Teams'' @ [CR, LF]
        @ js ''internal remark'' @ [LF] @ js ''<v Bob>not said</v>'' @ [LF, LF] @ js ''7'' @ [LF]
        @ js ''00:00:00.000 --> 00:00:02.000 align:start'' @ [LF] @ js ''   '' @ [LF]
        @ js ''617c22e3-ccc5-445a-b806-be21f6abb3be'' @ [LF]"
  have h: "metadataOnly (splitLines ?x)" by code_simp
  have m: "map metadataLine (splitLines ?x)
      = [True, True, True, False, False, True, True, True, True, True, True]" by code_simp
  from h cleanVttTranscript_metadata_only [of ?x] have "cleanVttTranscript ?x = []" by simp
  with h m show ?thesis by simp
qed

section \<open>The merge pass separates the speakers\<close>

lemma distinctAdjacent_snoc:
  "distinctAdjacent (ps @ [p]) =
     (distinctAdjacent ps \<and> (ps = [] \<or> speakerOf (last ps) = None \<or> speakerOf (last ps) \<noteq> speakerOf p))"
  by (induction ps rule: distinctAdjacent.induct) auto

lemma set_trim: "set (trim x) \<subseteq> set x"
proof -
  have "set (trim x) = set (dropWhile isWhiteSpace (rev (dropWhile isWhiteSpace x)))"
    by (simp add: trim_def)
  also have "\<dots> \<subseteq> set (rev (dropWhile isWhiteSpace x))" by (rule set_dropWhileD[THEN subsetI]) 
  also have "\<dots> \<subseteq> set x" using set_dropWhileD[of _ isWhiteSpace x] by auto
  finally show ?thesis .
qed

lemma trim_nonempty: "x \<noteq> [] \<Longrightarrow> \<not> isWhiteSpace (hd x) \<Longrightarrow> trim x \<noteq> []"
proof -
  assume a: "x \<noteq> []" "\<not> isWhiteSpace (hd x)"
  then have "dropWhile isWhiteSpace x = x" by (cases x) auto
  with a rev_dropWhile_rev_hd[of x isWhiteSpace] show ?thesis by (simp add: trim_def)
qed

lemma cleanSpeaker_trim:
  assumes "goodLine l" "takeWhile (\<lambda>c. c \<noteq> 0x3A) l \<noteq> []"
  shows "cleanSpeaker (trim (takeWhile (\<lambda>c. c \<noteq> 0x3A) l))"
proof -
  let ?g = "takeWhile (\<lambda>c. c \<noteq> 0x3A) l"
  from assms have "hd ?g = hd l" by (cases l) (auto split: if_splits)
  with assms have ne: "trim ?g \<noteq> []" by (simp add: trim_nonempty goodLine_def)
  have "0x3A \<notin> set ?g" using set_takeWhileD[of "0x3A" "\<lambda>c. c \<noteq> 0x3A" l] by auto
  with set_trim[of ?g] have "0x3A \<notin> set (trim ?g)" by auto
  with ne trim_hd[OF ne] trim_last[OF ne] show ?thesis by (simp add: cleanSpeaker_def)
qed

lemma speakerOf_flush: "cleanSpeaker sp \<Longrightarrow> speakerOf (sp @ js '': '' @ t) = Some sp"
proof -
  assume a: "cleanSpeaker sp"
  then have nc: "\<forall>c\<in>set sp. c \<noteq> 0x3A" by (auto simp: cleanSpeaker_def)
  have j: "js '': '' = [0x3A, 0x20]" by (simp add: js_def)
  from nc have 1: "takeWhile (\<lambda>c. c \<noteq> 0x3A) (sp @ 0x3A # 0x20 # t) = sp"
    by (simp add: takeWhile_append2)
  from nc have 2: "dropWhile (\<lambda>c. c \<noteq> 0x3A) (sp @ 0x3A # 0x20 # t) = 0x3A # 0x20 # t"
    by (simp add: dropWhile_append2)
  from a have "trim sp = sp" by (simp add: trim_id cleanSpeaker_def)
  with a 1 2 j show ?thesis by (simp add: speakerOf_def speakerMatch_def Let_def cleanSpeaker_def)
qed

lemma mergeStep_inv:
  assumes "mergeInv st" "goodLine l"
  shows "mergeInv (mergeStep l st)"
proof (cases "speakerMatch l")
  case None
  then have so: "speakerOf l = None" by (simp add: speakerOf_def)
  show ?thesis
  proof (cases "currentSpeaker st = []")
    case True
    with None assms so show ?thesis
      by (auto simp: mergeStep_def mergeInv_def distinctAdjacent_snoc)
  next
    case False
    with None assms show ?thesis by (simp add: mergeStep_def mergeInv_def)
  qed
next
  case (Some g)
  obtain g1 g2 where g: "g = (g1, g2)" by (cases g)
  with Some have g1: "g1 = takeWhile (\<lambda>c. c \<noteq> 0x3A) l" "g1 \<noteq> []"
    by (auto simp: speakerMatch_def Let_def split: if_splits)
  with assms(2) have cs: "cleanSpeaker (trim g1)" by (simp add: cleanSpeaker_trim)
  then have ne: "trim g1 \<noteq> []" by (simp add: cleanSpeaker_def)
  show ?thesis
  proof (cases "trim g1 = currentSpeaker st")
    case True
    with Some g assms show ?thesis by (simp add: mergeStep_def mergeInv_def Let_def)
  next
    case False
    show ?thesis
    proof (cases "currentSpeaker st = []")
      case True
      with False Some g assms cs ne show ?thesis
        by (auto simp: mergeStep_def mergeInv_def Let_def)
    next
      case cur: False
      with assms(1) have c: "cleanSpeaker (currentSpeaker st)" by (simp add: mergeInv_def)
      have f: "speakerOf (currentSpeaker st @ js '': '' @ currentText st) = Some (currentSpeaker st)"
        using c by (rule speakerOf_flush)
      from cur False Some g assms cs ne f show ?thesis
        by (auto simp: mergeStep_def mergeInv_def Let_def distinctAdjacent_snoc)
    qed
  qed
qed

lemma mergeLoop_inv: "mergeInv st \<Longrightarrow> list_all goodLine ls \<Longrightarrow> mergeInv (mergeLoop ls st)"
  by (induction ls arbitrary: st) (auto simp: mergeStep_inv)

lemma mergedParagraphs_distinct:
  assumes "list_all goodLine ls" shows "distinctAdjacent (mergedParagraphs ls)"
proof -
  let ?st = "mergeLoop ls \<lparr>merged = [], currentSpeaker = [], currentText = []\<rparr>"
  have "mergeInv \<lparr>merged = [], currentSpeaker = [], currentText = []\<rparr>" by (simp add: mergeInv_def)
  then have inv: "mergeInv ?st" using assms by (rule mergeLoop_inv)
  show ?thesis
  proof (cases "currentSpeaker ?st = []")
    case True with inv show ?thesis by (simp add: mergedParagraphs_def mergeInv_def)
  next
    case False
    with inv have c: "cleanSpeaker (currentSpeaker ?st)" by (simp add: mergeInv_def)
    have "speakerOf (currentSpeaker ?st @ js '': '' @ currentText ?st) = Some (currentSpeaker ?st)"
      using c by (rule speakerOf_flush)
    with False inv show ?thesis
      by (auto simp: mergedParagraphs_def mergeInv_def Let_def distinctAdjacent_snoc)
  qed
qed

lemma cleanLoop_good: "list_all goodLine (cleanLoop skipNote ls)"
proof (induction ls arbitrary: skipNote)
  case Nil show ?case by simp
next
  case (Cons l ls)
  have "cleanDialogue (trim l) \<noteq> [] \<Longrightarrow> goodLine (cleanDialogue (trim l))"
    unfolding cleanDialogue_def goodLine_def using trim_hd by blast
  with Cons show ?case by (simp add: Let_def)
qed

text \<open>
  C4.  For every input, the cleaned transcript is its paragraphs joined by line feeds, and
  among the paragraphs no two neighbours that carry a speaker carry the same one.
\<close>

theorem cleaned_paragraphs_change_speaker:
  "cleanVttTranscript rawVtt = joinLines (cleanedParagraphs rawVtt)
   \<and> distinctAdjacent (cleanedParagraphs rawVtt)"
proof
  show "cleanVttTranscript rawVtt = joinLines (cleanedParagraphs rawVtt)"
    by (cases "cleanedLines rawVtt")
       (simp_all add: cleanVttTranscript_def mergeSpeakerLines_def cleanedParagraphs_def
          mergedParagraphs_def)
  show "distinctAdjacent (cleanedParagraphs rawVtt)"
    unfolding cleanedParagraphs_def cleanedLines_def
    by (rule mergedParagraphs_distinct) (rule cleanLoop_good)
qed

theorem cleaned_paragraphs_change_speaker_witness:
  "cleanedParagraphs
     (js ''<v Alice>Hello'' @ [LF] @ js ''<v Alice>again'' @ [LF] @ js ''<v Bob>Hi''
      @ [LF] @ js ''<v Alice>Bye'')
   = [js ''Alice: Hello again'', js ''Bob: Hi'', js ''Alice: Bye'']
   \<and> speakerOf (js ''Alice: Hello again'') = Some (js ''Alice'')
   \<and> speakerOf (js ''Bob: Hi'') = Some (js ''Bob'')
   \<and> speakerOf (js ''Alice: Bye'') = Some (js ''Alice'')
   \<and> distinctAdjacent
       (cleanedParagraphs
         (js ''<v Alice>Hello'' @ [LF] @ js ''<v Alice>again'' @ [LF] @ js ''<v Bob>Hi''
          @ [LF] @ js ''<v Alice>Bye''))"
proof -
  let ?x = "js ''<v Alice>Hello'' @ [LF] @ js ''<v Alice>again'' @ [LF] @ js ''<v Bob>Hi''
      @ [LF] @ js ''<v Alice>Bye''"
  have 1: "cleanedParagraphs ?x = [js ''Alice: Hello again'', js ''Bob: Hi'', js ''Alice: Bye'']"
    by code_simp
  have 2: "speakerOf (js ''Alice: Hello again'') = Some (js ''Alice'')"
    "speakerOf (js ''Bob: Hi'') = Some (js ''Bob'')"
    "speakerOf (js ''Alice: Bye'') = Some (js ''Alice'')"
    by code_simp+
  from cleaned_paragraphs_change_speaker [of ?x] 1 2 show ?thesis by simp
qed

section \<open>Running the cleaner on its own output\<close>

text \<open>
  C3 does not hold as it is stated: an empty cue of the speaker who spoke last leaves a
  space at the end of the paragraph, and a second run trims it.
\<close>

theorem cleanVttTranscript_not_idempotent_counterexample:
  "cleanVttTranscript (js ''<v Alice>hi</v>'' @ [LF] @ js ''<v Alice></v>'') = js ''Alice: hi ''
   \<and> cleanVttTranscript (cleanVttTranscript (js ''<v Alice>hi</v>'' @ [LF] @ js ''<v Alice></v>''))
       = js ''Alice: hi''
   \<and> js ''Alice: hi'' \<noteq> js ''Alice: hi ''"
  by code_simp

lemma splitLines_single: "LF \<notin> set p \<Longrightarrow> splitLines p = [p]"
  by (induction p rule: splitLines.induct) auto

lemma splitLines_line:
  "LF \<notin> set p \<Longrightarrow> p = [] \<or> last p \<noteq> CR \<Longrightarrow> splitLines (p @ LF # rest) = p # splitLines rest"
proof (induction p)
  case Nil
  show ?case by (cases rest) auto
next
  case (Cons c p)
  from Cons.prems have c: "c \<noteq> LF" and p: "LF \<notin> set p" by auto
  from Cons.prems have l: "p = [] \<or> last p \<noteq> CR" by (auto split: if_splits)
  obtain d cs where dc: "p @ LF # rest = d # cs" by (cases "p @ LF # rest") auto
  have "\<not> (c = CR \<and> d = LF)"
  proof (cases p)
    case Nil with Cons.prems show ?thesis by auto
  next
    case (Cons e es) with dc p show ?thesis by auto
  qed
  with c dc Cons.IH[OF p l] show ?case by auto
qed

lemma splitLines_joinLines:
  "ps \<noteq> [] \<Longrightarrow> \<forall>p\<in>set ps. LF \<notin> set p \<and> (p = [] \<or> last p \<noteq> CR)
   \<Longrightarrow> splitLines (joinLines ps) = ps"
proof (induction ps rule: joinLines.induct)
  case 1 then show ?case by simp
next
  case (2 l) then show ?case by (simp add: splitLines_single)
next
  case (3 l k ls)
  then show ?case by (simp add: splitLines_line)
qed

lemma replaceAll_none: "(\<And>c cs. c \<in> set s \<Longrightarrow> m (c # cs) = None) \<Longrightarrow> replaceAll m s = s"
  by (induction s) auto

lemma matchVoiceOpen_none: "c \<noteq> 0x3C \<Longrightarrow> matchVoiceOpen (c # cs) = None"
  by (cases cs) (auto simp: matchVoiceOpen_def Let_def)

lemma matchVoiceClose_none: "c \<noteq> 0x3C \<Longrightarrow> matchVoiceClose (c # cs) = None"
  by (simp add: matchVoiceClose_def lit_def)

lemma matchTag_none: "c \<noteq> 0x3C \<Longrightarrow> matchTag (c # cs) = None"
  by (simp add: matchTag_def)

lemma replaceAll_spaces: "noDoubleSpace s \<Longrightarrow> replaceAll matchSpaces s = s"
  by (induction s rule: noDoubleSpace.induct) (auto simp: matchSpaces_def Let_def)

lemma cleanDialogue_plain:
  assumes "0x3C \<notin> set p" "noDoubleSpace p" "trim p = p"
  shows "cleanDialogue p = p"
proof -
  from assms(1) have n: "\<And>c. c \<in> set p \<Longrightarrow> c \<noteq> 0x3C" by auto
  have 1: "replaceAll matchVoiceOpen p = p" by (rule replaceAll_none) (simp add: n matchVoiceOpen_none)
  have 2: "replaceAll matchVoiceClose p = p" by (rule replaceAll_none) (simp add: n matchVoiceClose_none)
  have 3: "replaceAll matchTag p = p" by (rule replaceAll_none) (simp add: n matchTag_none)
  from 1 2 3 assms(2,3) show ?thesis by (simp add: cleanDialogue_def replaceAll_spaces)
qed


lemma settled_plain: "settledParagraph p \<Longrightarrow> plainLine p"
  by (simp add: settledParagraph_def)

lemma cleanLoop_plain: "list_all plainLine ps \<Longrightarrow> cleanLoop False ps = ps"
proof (induction ps)
  case Nil show ?case by simp
next
  case (Cons p ps)
  from Cons.prems have f: "trim p = p" "p \<noteq> []" "0x3C \<notin> set p" "noDoubleSpace p" "\<not> metadataLine p"
    by (simp_all add: plainLine_def)
  then have cd: "cleanDialogue p = p" by (simp add: cleanDialogue_plain)
  from f have "\<not> isHeaderLine p" "\<not> isNoteLine p" "\<not> isTimingLine p" "\<not> isNumericId p" "\<not> isUuidId p"
    by (simp_all add: metadataLine_def Let_def)
  with f cd Cons show ?case by (simp add: Let_def)
qed

lemma settled_attributed:
  assumes "settledParagraph p" "speakerOf p \<noteq> None"
  shows "\<exists>g1 g2. speakerMatch p = Some (g1, g2) \<and> speakerOf p = Some g1 \<and> g1 \<noteq> []
           \<and> trim g1 = g1 \<and> trim g2 = g2 \<and> p = g1 @ js '': '' @ g2"
proof -
  from assms(2) obtain g1 g2 where sm: "speakerMatch p = Some (g1, g2)"
    by (auto simp: speakerOf_def split: option.splits)
  then have g1: "g1 \<noteq> []" by (auto simp: speakerMatch_def Let_def split: if_splits)
  from assms(1) sm have "p = g1 @ js '': '' @ g2 \<and> trim g1 = g1 \<and> trim g2 = g2 \<and> g2 \<noteq> []"
    unfolding settledParagraph_def by (simp only: option.case prod.case) blast
  with sm g1 show ?thesis by (auto simp: speakerOf_def)
qed

lemma mergeLoop_settled:
  "list_all settledParagraph ps \<Longrightarrow> list_all (\<lambda>p. speakerOf p \<noteq> None) ps \<Longrightarrow> distinctAdjacent ps
   \<Longrightarrow> currentSpeaker st \<noteq> []
   \<Longrightarrow> ps = [] \<or> speakerOf (hd ps) \<noteq> Some (currentSpeaker st)
   \<Longrightarrow> flushed (mergeLoop ps st) = merged st @ [currentSpeaker st @ js '': '' @ currentText st] @ ps"
proof (induction ps arbitrary: st)
  case Nil then show ?case by (simp add: flushed_def)
next
  case (Cons p ps)
  from Cons.prems(1,2) have sp: "settledParagraph p" "speakerOf p \<noteq> None"
    and sps: "list_all settledParagraph ps" "list_all (\<lambda>p. speakerOf p \<noteq> None) ps" by simp_all
  from settled_attributed[OF sp] obtain g1 g2 where
    g: "speakerMatch p = Some (g1, g2)" "speakerOf p = Some g1" "g1 \<noteq> []" "trim g1 = g1"
       "trim g2 = g2" "p = g1 @ js '': '' @ g2" by blast
  from Cons.prems(5) g have ne: "g1 \<noteq> currentSpeaker st" by auto
  let ?st = "mergeStep p st"
  from g ne Cons.prems(4) have st: "merged ?st = merged st @ [currentSpeaker st @ js '': '' @ currentText st]"
    "currentSpeaker ?st = g1" "currentText ?st = g2"
    by (simp_all add: mergeStep_def Let_def)
  from Cons.prems(3) have da: "distinctAdjacent ps" by (cases ps) auto
  have nx: "ps = [] \<or> speakerOf (hd ps) \<noteq> Some (currentSpeaker ?st)"
  proof (cases ps)
    case Nil then show ?thesis by simp
  next
    case (Cons q qs)
    with Cons.prems(3) g st show ?thesis by auto
  qed
  from Cons.IH[OF sps da _ nx] st g show ?case by simp
qed

lemma mergeLoop_unattributed:
  "\<forall>p\<in>set us. speakerOf p = None \<Longrightarrow> currentSpeaker st = []
   \<Longrightarrow> mergeLoop us st = st\<lparr>merged := merged st @ us\<rparr>"
proof (induction us arbitrary: st)
  case Nil show ?case by simp
next
  case (Cons u us)
  from Cons.prems have "speakerMatch u = None" by (auto simp: speakerOf_def split: option.splits)
  with Cons.prems have "mergeStep u st = st\<lparr>merged := merged st @ [u]\<rparr>"
    by (simp add: mergeStep_def)
  with Cons show ?case by simp
qed

lemma mergeLoop_append: "mergeLoop (xs @ ys) st = mergeLoop ys (mergeLoop xs st)"
  by (induction xs arbitrary: st) auto

lemma distinctAdjacent_tail: "distinctAdjacent (x # zs) \<Longrightarrow> distinctAdjacent zs"
  by (cases zs) auto

lemma distinctAdjacent_suffix: "distinctAdjacent (xs @ ys) \<Longrightarrow> distinctAdjacent ys"
  by (induction xs) (auto dest: distinctAdjacent_tail)

lemma mergedParagraphs_settled:
  assumes "list_all settledParagraph ps" "distinctAdjacent ps" "leadingUnattributed ps"
  shows "mergedParagraphs ps = ps"
proof -
  let ?init = "\<lparr>merged = [], currentSpeaker = [], currentText = []\<rparr>"
  let ?us = "takeWhile (\<lambda>p. speakerOf p = None) ps"
  let ?as = "dropWhile (\<lambda>p. speakerOf p = None) ps"
  have ps: "ps = ?us @ ?as" by simp
  have us: "\<forall>p\<in>set ?us. speakerOf p = None" by (auto dest: set_takeWhileD)
  from assms(3) have at: "list_all (\<lambda>p. speakerOf p \<noteq> None) ?as" by (simp add: leadingUnattributed_def)
  from assms(1) have sa: "list_all settledParagraph ?as"
    by (auto simp: list_all_iff dest: set_dropWhileD)
  have l1: "mergeLoop ?us ?init = \<lparr>merged = ?us, currentSpeaker = [], currentText = []\<rparr>"
    using mergeLoop_unattributed[OF us, of ?init] by simp
  have l: "mergeLoop ps ?init = mergeLoop ?as \<lparr>merged = ?us, currentSpeaker = [], currentText = []\<rparr>"
    using mergeLoop_append[of ?us ?as ?init] l1 by simp
  show ?thesis
  proof (cases ?as)
    case Nil
    with l ps show ?thesis by (simp add: mergedParagraphs_def)
  next
    case (Cons p qs)
    let ?lead = "\<lparr>merged = ?us, currentSpeaker = [], currentText = []\<rparr>"
    from at sa Cons have sp: "settledParagraph p" "speakerOf p \<noteq> None"
      and sps: "list_all settledParagraph qs" "list_all (\<lambda>p. speakerOf p \<noteq> None) qs" by simp_all
    from settled_attributed[OF sp] obtain g1 g2 where
      g: "speakerMatch p = Some (g1, g2)" "speakerOf p = Some g1" "g1 \<noteq> []" "trim g1 = g1"
         "trim g2 = g2" "p = g1 @ js '': '' @ g2" by blast
    let ?st = "mergeStep p ?lead"
    from g have st: "merged ?st = ?us" "currentSpeaker ?st = g1" "currentText ?st = g2"
      by (simp_all add: mergeStep_def Let_def)
    have dall: "distinctAdjacent (?us @ p # qs)" using assms(2) ps Cons by simp
    have dpq: "distinctAdjacent (p # qs)"
      using dall by (rule distinctAdjacent_suffix)
    then have da: "distinctAdjacent qs" by (cases qs) auto
    have nx: "qs = [] \<or> speakerOf (hd qs) \<noteq> Some (currentSpeaker ?st)"
    proof (cases qs)
      case Nil then show ?thesis by simp
    next
      case (Cons q rs)
      with dpq g st show ?thesis by auto
    qed
    from mergeLoop_settled[OF sps da _ nx] st g
    have "flushed (mergeLoop qs ?st) = ?us @ p # qs" by simp
    moreover from l Cons have "mergeLoop ps ?init = mergeLoop qs ?st" by simp
    ultimately have "flushed (mergeLoop ps ?init) = ?us @ p # qs" by simp
    with ps Cons show ?thesis by (simp add: mergedParagraphs_def flushed_def)
  qed
qed

lemma settled_fixed_point:
  assumes "list_all settledParagraph ps" "distinctAdjacent ps" "leadingUnattributed ps"
  shows "cleanVttTranscript (joinLines ps) = joinLines ps"
proof (cases "ps = []")
  case True
  then show ?thesis
    by (simp add: cleanVttTranscript_def cleanedLines_def mergeSpeakerLines_def trim_def)
next
  case False
  from assms(1) have pl: "list_all plainLine ps" by (simp add: list_all_iff settled_plain)
  have "\<forall>p\<in>set ps. LF \<notin> set p \<and> (p = [] \<or> last p \<noteq> CR)"
  proof
    fix p assume "p \<in> set ps"
    with pl have f: "LF \<notin> set p" "trim p = p" "p \<noteq> []" by (simp_all add: list_all_iff plainLine_def)
    from f(2,3) have "trim p \<noteq> []" by simp
    from trim_last[OF this] f(2) have "\<not> isWhiteSpace (last p)" by simp
    then have "last p \<noteq> CR" by (auto simp: isWhiteSpace_def CR_def)
    with f show "LF \<notin> set p \<and> (p = [] \<or> last p \<noteq> CR)" by simp
  qed
  with False have "splitLines (joinLines ps) = ps" by (rule splitLines_joinLines)
  with assms pl False show ?thesis
    by (simp add: cleanVttTranscript_def cleanedLines_def mergeSpeakerLines_def
        cleanLoop_plain mergedParagraphs_settled)
qed

lemma leadingUnattributed_snoc:
  "leadingUnattributed xs \<Longrightarrow> speakerOf p \<noteq> None \<Longrightarrow> leadingUnattributed (xs @ [p])"
  by (auto simp: leadingUnattributed_def dropWhile_append)

lemma leadingUnattributed_all:
  assumes "\<forall>p\<in>set xs. speakerOf p = None"
  shows "leadingUnattributed xs"
proof -
  from assms have e: "dropWhile (\<lambda>p. speakerOf p = None) xs = []"
    using dropWhile_eq_Nil_conv[of "\<lambda>p. speakerOf p = None" xs] by blast
  show ?thesis by (simp only: leadingUnattributed_def e list.pred_inject)
qed

lemma mergeStep_leading:
  assumes "mergeInv st" "leadingUnattributed (merged st)" "goodLine l"
  shows "leadingUnattributed (merged (mergeStep l st))"
proof (cases "speakerMatch l")
  case None
  then have so: "speakerOf l = None" by (simp add: speakerOf_def)
  show ?thesis
  proof (cases "currentSpeaker st = []")
    case True
    with assms(1) have "\<forall>p\<in>set (merged st). speakerOf p = None" by (simp add: mergeInv_def)
    with so have "\<forall>p\<in>set (merged st @ [l]). speakerOf p = None" by simp
    then have "leadingUnattributed (merged st @ [l])" by (rule leadingUnattributed_all)
    with None True show ?thesis by (simp add: mergeStep_def)
  next
    case False
    with None assms(2) show ?thesis by (simp add: mergeStep_def)
  qed
next
  case (Some g)
  obtain g1 g2 where g: "g = (g1, g2)" by (cases g)
  show ?thesis
  proof (cases "trim g1 = currentSpeaker st \<or> currentSpeaker st = []")
    case True
    with Some g assms(2) show ?thesis by (auto simp: mergeStep_def Let_def)
  next
    case False
    with assms(1) have "cleanSpeaker (currentSpeaker st)" by (simp add: mergeInv_def)
    then have "speakerOf (currentSpeaker st @ js '': '' @ currentText st) = Some (currentSpeaker st)"
      by (rule speakerOf_flush)
    with assms(2) have "leadingUnattributed (merged st @ [currentSpeaker st @ js '': '' @ currentText st])"
      by (simp add: leadingUnattributed_snoc)
    with False Some g show ?thesis by (simp add: mergeStep_def Let_def)
  qed
qed

lemma mergeLoop_leading:
  "mergeInv st \<Longrightarrow> leadingUnattributed (merged st) \<Longrightarrow> list_all goodLine ls
   \<Longrightarrow> leadingUnattributed (merged (mergeLoop ls st))"
  by (induction ls arbitrary: st) (auto simp: mergeStep_inv mergeStep_leading)

lemma mergedParagraphs_leading:
  assumes "list_all goodLine ls" shows "leadingUnattributed (mergedParagraphs ls)"
proof -
  let ?init = "\<lparr>merged = [], currentSpeaker = [], currentText = []\<rparr>"
  let ?st = "mergeLoop ls ?init"
  have i0: "mergeInv ?init" by (simp add: mergeInv_def)
  have l0: "leadingUnattributed (merged ?init)" by (simp add: leadingUnattributed_def)
  from i0 assms have inv: "mergeInv ?st" by (rule mergeLoop_inv)
  from i0 l0 assms have lead: "leadingUnattributed (merged ?st)" by (rule mergeLoop_leading)
  show ?thesis
  proof (cases "currentSpeaker ?st = []")
    case True with lead show ?thesis by (simp add: mergedParagraphs_def)
  next
    case False
    with inv have "cleanSpeaker (currentSpeaker ?st)" by (simp add: mergeInv_def)
    then have "speakerOf (currentSpeaker ?st @ js '': '' @ currentText ?st) = Some (currentSpeaker ?st)"
      by (rule speakerOf_flush)
    with lead have "leadingUnattributed (merged ?st @ [currentSpeaker ?st @ js '': '' @ currentText ?st])"
      by (simp add: leadingUnattributed_snoc)
    with False show ?thesis by (simp add: mergedParagraphs_def Let_def)
  qed
qed

text \<open>
  C3, amended.  For every input whose cleaned paragraphs are all settled (trimmed and not
  empty, without \<open><\<close>, without line feed, without two white space characters in a row, not
  looking like a header, a comment opener, a timing line or a cue identifier, and, where
  they have a speaker, of the form \<open>Speaker: text\<close> with trimmed speaker and trimmed text
  that is not empty and holds no line terminator), cleaning the cleaned text gives the
  cleaned text again.
\<close>

theorem cleanVttTranscript_idempotent_on_settled:
  assumes "list_all settledParagraph (cleanedParagraphs rawVtt)"
  shows "cleanVttTranscript (cleanVttTranscript rawVtt) = cleanVttTranscript rawVtt"
proof -
  have "cleanVttTranscript rawVtt = joinLines (cleanedParagraphs rawVtt)"
    and "distinctAdjacent (cleanedParagraphs rawVtt)"
    using cleaned_paragraphs_change_speaker[of rawVtt] by simp_all
  moreover have "leadingUnattributed (cleanedParagraphs rawVtt)"
    unfolding cleanedParagraphs_def cleanedLines_def
    by (rule mergedParagraphs_leading) (rule cleanLoop_good)
  ultimately show ?thesis using assms by (simp add: settled_fixed_point)
qed

theorem cleanVttTranscript_idempotent_on_settled_witness:
  "list_all settledParagraph
     (cleanedParagraphs
       (js ''WEBVTT'' @ [LF, LF] @ js ''(recording)'' @ [LF] @ js ''<v Alice>Hello there.</v>''
        @ [LF] @ js ''<v Alice>How are you?</v>'' @ [LF, LF] @ js ''<v Bob>Fine.</v>''))
   \<and> cleanVttTranscript
       (js ''WEBVTT'' @ [LF, LF] @ js ''(recording)'' @ [LF] @ js ''<v Alice>Hello there.</v>''
        @ [LF] @ js ''<v Alice>How are you?</v>'' @ [LF, LF] @ js ''<v Bob>Fine.</v>'')
       = js ''(recording)'' @ [LF] @ js ''Alice: Hello there. How are you?'' @ [LF]
         @ js ''Bob: Fine.''
   \<and> cleanVttTranscript
       (cleanVttTranscript
         (js ''WEBVTT'' @ [LF, LF] @ js ''(recording)'' @ [LF] @ js ''<v Alice>Hello there.</v>''
          @ [LF] @ js ''<v Alice>How are you?</v>'' @ [LF, LF] @ js ''<v Bob>Fine.</v>''))
       = js ''(recording)'' @ [LF] @ js ''Alice: Hello there. How are you?'' @ [LF]
         @ js ''Bob: Fine.''"
proof -
  let ?x = "js ''WEBVTT'' @ [LF, LF] @ js ''(recording)'' @ [LF] @ js ''<v Alice>Hello there.</v>''
        @ [LF] @ js ''<v Alice>How are you?</v>'' @ [LF, LF] @ js ''<v Bob>Fine.</v>''"
  have h: "list_all settledParagraph (cleanedParagraphs ?x)" by code_simp
  have v: "cleanVttTranscript ?x
       = js ''(recording)'' @ [LF] @ js ''Alice: Hello there. How are you?'' @ [LF]
         @ js ''Bob: Fine.''"
    by code_simp
  from cleanVttTranscript_idempotent_on_settled [OF h] v h show ?thesis by simp
qed

section \<open>What the functions of the client add to the trace\<close>

lemma graphGet_trace: "graphGet a op s = (r, s') \<Longrightarrow> trace s' = trace s @ [a]"
  by (auto simp: graphGet_def Let_def split: prod.splits reply.splits)

lemma graphGetSafe_result:
  "graphGetSafe a op s = (r, s') \<Longrightarrow> trace s' = trace s @ [a] \<and> (\<exists>v. r = Inr v)"
  by (auto simp: graphGetSafe_def split: prod.splits sum.splits dest: graphGet_trace)

lemma fetchCalendarEvents_result:
  "fetchCalendarEvents E a b n s = (r, s') \<Longrightarrow>
     trace s' = trace s @ [GetCalendarView a b (mathMin n (Finite 100))] \<and> (\<exists>events. r = Inr events)"
  by (auto simp: fetchCalendarEvents_def Let_def split: prod.splits sum.splits
      dest: graphGetSafe_result)

lemma tryResolve_enc_fails:
  "encodeURIComponent E (joinUrlFilter u) = None \<Longrightarrow> tryResolveByJoinUrl E u s = (Inl URIError, s)"
  by (simp add: tryResolveByJoinUrl_def)

lemma tryResolve_enc_ok:
  "encodeURIComponent E (joinUrlFilter u) = Some f \<Longrightarrow> tryResolveByJoinUrl E u s = (r, s')
   \<Longrightarrow> trace s' = trace s @ [GetOnlineMeetings f] \<and> (\<exists>v. r = Inr v)"
  by (auto simp: tryResolveByJoinUrl_def split: prod.splits sum.splits dest: graphGetSafe_result)

lemma tryResolve_trace:
  "tryResolveByJoinUrl E u s = (r, s') \<Longrightarrow>
     trace s' = trace s @ map GetOnlineMeetings (case encodeURIComponent E (joinUrlFilter u) of None \<Rightarrow> [] | Some f \<Rightarrow> [f])"
  by (cases "encodeURIComponent E (joinUrlFilter u)")
     (auto simp: tryResolve_enc_fails dest: tryResolve_enc_ok)

lemma tryResolve_None_enc:
  "tryResolveByJoinUrl E u s = (Inr v, s') \<Longrightarrow> \<exists>f. encodeURIComponent E (joinUrlFilter u) = Some f"
  by (cases "encodeURIComponent E (joinUrlFilter u)") (auto simp: tryResolve_enc_fails)

lemma resolveOnlineMeeting_unfold:
  "resolveOnlineMeeting E u s =
     (case tryResolveByJoinUrl E u (entered u s) of
        (Inl err, s1) \<Rightarrow> (Inl err, s1)
      | (Inr (Some result), s1) \<Rightarrow> (Inr (Some result), s1)
      | (Inr None, s1) \<Rightarrow>
          (case decodeURIComponent E u of
             None \<Rightarrow> (Inl URIError, s1)
           | Some decoded \<Rightarrow>
               if decoded \<noteq> u then tryResolveByJoinUrl E decoded s1 else (Inr None, s1)))"
  by (auto simp: resolveOnlineMeeting_def entered_def Let_def
      split: prod.splits sum.splits option.splits)

lemma entered_trace: "trace (entered u s) = trace s @ [ResolveCall u]"
  by (simp add: entered_def)

lemma resolveOnlineMeeting_trace:
  assumes "resolveOnlineMeeting E u s = (r, s')"
  shows "\<exists>ls. trace s' = trace s @ ResolveCall u # map GetOnlineMeetings ls \<and> length ls \<le> 2
     \<and> (ls \<noteq> [] \<longrightarrow> encodeURIComponent E (joinUrlFilter u) = Some (hd ls))
     \<and> (length ls = 2 \<longrightarrow>
          fst (tryResolveByJoinUrl E u (entered u s)) = Inr None
          \<and> (\<exists>d. decodeURIComponent E u = Some d \<and> d \<noteq> u
                \<and> encodeURIComponent E (joinUrlFilter d) = Some (ls ! 1)))"
proof -
  obtain r1 s1 where t1: "tryResolveByJoinUrl E u (entered u s) = (r1, s1)" by fastforce
  let ?l1 = "case encodeURIComponent E (joinUrlFilter u) of None \<Rightarrow> [] | Some f \<Rightarrow> [f]"
  from tryResolve_trace[OF t1]
  have tr1: "trace s1 = trace s @ ResolveCall u # map GetOnlineMeetings ?l1"
    by (simp add: entered_trace)
  have l1: "length ?l1 \<le> 1" "?l1 \<noteq> [] \<longrightarrow> encodeURIComponent E (joinUrlFilter u) = Some (hd ?l1)"
    by (auto split: option.splits)
  show ?thesis
  proof (cases "r1 = Inr None \<and> (\<exists>d. decodeURIComponent E u = Some d \<and> d \<noteq> u)")
    case False
    with assms t1 have "s' = s1"
      by (auto simp: resolveOnlineMeeting_unfold split: sum.splits option.splits if_splits)
    with tr1 l1 show ?thesis by (intro exI[of _ ?l1]) auto
  next
    case True
    then obtain d where d: "r1 = Inr None" "decodeURIComponent E u = Some d" "d \<noteq> u" by blast
    with assms t1 have t2: "tryResolveByJoinUrl E d s1 = (r, s')"
      by (simp add: resolveOnlineMeeting_unfold)
    from d t1 tryResolve_None_enc obtain f1 where f1: "encodeURIComponent E (joinUrlFilter u) = Some f1"
      by blast
    let ?l2 = "case encodeURIComponent E (joinUrlFilter d) of None \<Rightarrow> [] | Some f \<Rightarrow> [f]"
    from tryResolve_trace[OF t2] tr1 f1
    have tr2: "trace s' = trace s @ ResolveCall u # map GetOnlineMeetings (f1 # ?l2)" by simp
    have "length (f1 # ?l2) \<le> 2" by (auto split: option.splits)
    moreover have "encodeURIComponent E (joinUrlFilter u) = Some (hd (f1 # ?l2))" using f1 by simp
    moreover have "length (f1 # ?l2) = 2 \<longrightarrow>
          fst (tryResolveByJoinUrl E u (entered u s)) = Inr None
          \<and> (\<exists>d. decodeURIComponent E u = Some d \<and> d \<noteq> u
                \<and> encodeURIComponent E (joinUrlFilter d) = Some ((f1 # ?l2) ! 1))"
      using d t1 by (auto split: option.splits)
    ultimately show ?thesis using tr2 by (intro exI[of _ "f1 # ?l2"]) blast
  qed
qed

lemma performed_append: "trace s' = trace s @ as \<Longrightarrow> performed s s' = as"
  by (simp add: performed_def)

lemma resolveCalls_append: "resolveCalls (as @ bs) = resolveCalls as @ resolveCalls bs"
  by (induction as rule: resolveCalls.induct) auto

lemma contentRequests_append: "contentRequests (as @ bs) = contentRequests as @ contentRequests bs"
  by (induction as rule: contentRequests.induct) auto

lemma resolveCalls_lookups: "resolveCalls (map GetOnlineMeetings ls) = []"
  by (induction ls) auto

lemma contentRequests_lookups: "contentRequests (map GetOnlineMeetings ls) = []"
  by (induction ls) auto

lemma resolveCalendarEvent_noUrl: "\<not> hasJoinUrl e \<Longrightarrow> resolveCalendarEvent E e s = (Inr None, s)"
  by (auto simp: hasJoinUrl_def resolveCalendarEvent_def split: option.splits)

lemma resolveCalendarEvent_unfold:
  "hasJoinUrl e \<Longrightarrow>
   resolveCalendarEvent E e s =
     (case resolveOnlineMeeting E (joinUrlOf e) s of
        (Inl err, s1) \<Rightarrow> (Inl err, s1)
      | (Inr None, s1) \<Rightarrow> (Inr None, s1)
      | (Inr (Some meeting), s1) \<Rightarrow>
          (Inr (Some (meeting\<lparr>subject :=
             (if truthy (event_subject e) then the (event_subject e) else subject meeting)\<rparr>)), s1))"
  by (auto simp: hasJoinUrl_def joinUrlOf_def resolveCalendarEvent_def truthy_def
      split: option.splits prod.splits sum.splits)

lemma resolveCalendarEvent_trace:
  assumes "hasJoinUrl e" "resolveCalendarEvent E e s = (r, s')"
  shows "\<exists>as. trace s' = trace s @ as \<and> resolveCalls as = [joinUrlOf e] \<and> contentRequests as = []"
proof -
  obtain r0 s0 where r0: "resolveOnlineMeeting E (joinUrlOf e) s = (r0, s0)" by fastforce
  with assms have "s' = s0"
    by (auto simp: resolveCalendarEvent_unfold split: sum.splits option.splits)
  with resolveOnlineMeeting_trace[OF r0] obtain ls where
    "trace s' = trace s @ ResolveCall (joinUrlOf e) # map GetOnlineMeetings ls" by blast
  then show ?thesis
    by (intro exI[of _ "ResolveCall (joinUrlOf e) # map GetOnlineMeetings ls"])
       (simp add: resolveCalls_lookups contentRequests_lookups)
qed

lemma resolveLoop_trace:
  "list_all hasJoinUrl es \<Longrightarrow> resolveLoop E es acc s = (r, s') \<Longrightarrow>
     \<exists>as k. trace s' = trace s @ as \<and> k \<le> length es
        \<and> resolveCalls as = map joinUrlOf (take k es)
        \<and> ((\<exists>ms. r = Inr ms) \<longrightarrow> k = length es)
        \<and> contentRequests as = []"
proof (induction es arbitrary: acc s)
  case Nil
  then show ?case by (intro exI[of _ "[]"] exI[of _ 0]) simp
next
  case (Cons e es)
  obtain r1 s1 where r1: "resolveCalendarEvent E e s = (r1, s1)" by fastforce
  from Cons.prems have he: "hasJoinUrl e" and hes: "list_all hasJoinUrl es" by simp_all
  from resolveCalendarEvent_trace[OF he r1] obtain as1 where
    as1: "trace s1 = trace s @ as1" "resolveCalls as1 = [joinUrlOf e]" "contentRequests as1 = []"
    by blast
  show ?case
  proof (cases r1)
    case (Inl err)
    with Cons.prems r1 have "r = Inl err" "s' = s1" by simp_all
    with as1 show ?thesis by (intro exI[of _ as1] exI[of _ 1]) simp
  next
    case (Inr v)
    let ?acc = "case v of None \<Rightarrow> acc | Some m \<Rightarrow> acc @ [m]"
    from Inr Cons.prems r1 have "resolveLoop E es ?acc s1 = (r, s')"
      by (simp split: option.splits)
    from Cons.IH[OF hes this] obtain as k where
      ih: "trace s' = trace s1 @ as" "k \<le> length es" "resolveCalls as = map joinUrlOf (take k es)"
          "(\<exists>ms. r = Inr ms) \<longrightarrow> k = length es" "contentRequests as = []" by blast
    with as1 show ?thesis
      by (intro exI[of _ "as1 @ as"] exI[of _ "Suc k"])
         (simp add: resolveCalls_append contentRequests_append)
  qed
qed

section \<open>The resolver tries the exact URL, then the decoded one\<close>

text \<open>
  C5.  A run of \<open>resolveOnlineMeeting\<close> sends at most two lookups, and none but lookups.  The
  first is for the join URL as it is.  A second is sent only where the first gave no meeting
  and the decoded URL differs from the join URL, and it is for the decoded URL.  Where the
  first lookup gives no meeting and the lookup of the differing decoded URL gives one, that
  meeting is the result, after exactly two lookups.
\<close>

theorem resolveOnlineMeeting_exact_then_decoded:
  "(\<forall>r s'. resolveOnlineMeeting E joinUrl s = (r, s') \<longrightarrow>
      (\<exists>ls. trace s' = trace s @ ResolveCall joinUrl # map GetOnlineMeetings ls \<and> length ls \<le> 2
         \<and> (ls \<noteq> [] \<longrightarrow> encodeURIComponent E (joinUrlFilter joinUrl) = Some (hd ls))
         \<and> (length ls = 2 \<longrightarrow>
              fst (tryResolveByJoinUrl E joinUrl (entered joinUrl s)) = Inr None
              \<and> (\<exists>d. decodeURIComponent E joinUrl = Some d \<and> d \<noteq> joinUrl
                    \<and> encodeURIComponent E (joinUrlFilter d) = Some (ls ! 1)))))
   \<and> (\<forall>s1 decoded meeting s2.
        tryResolveByJoinUrl E joinUrl (entered joinUrl s) = (Inr None, s1)
        \<and> decodeURIComponent E joinUrl = Some decoded \<and> decoded \<noteq> joinUrl
        \<and> tryResolveByJoinUrl E decoded s1 = (Inr (Some meeting), s2)
        \<longrightarrow> resolveOnlineMeeting E joinUrl s = (Inr (Some meeting), s2)
            \<and> length (lookups (performed s s2)) = 2)"
proof (intro conjI allI impI)
  fix r s' assume "resolveOnlineMeeting E joinUrl s = (r, s')"
  then show "\<exists>ls. trace s' = trace s @ ResolveCall joinUrl # map GetOnlineMeetings ls \<and> length ls \<le> 2
         \<and> (ls \<noteq> [] \<longrightarrow> encodeURIComponent E (joinUrlFilter joinUrl) = Some (hd ls))
         \<and> (length ls = 2 \<longrightarrow>
              fst (tryResolveByJoinUrl E joinUrl (entered joinUrl s)) = Inr None
              \<and> (\<exists>d. decodeURIComponent E joinUrl = Some d \<and> d \<noteq> joinUrl
                    \<and> encodeURIComponent E (joinUrlFilter d) = Some (ls ! 1)))"
    by (rule resolveOnlineMeeting_trace)
next
  fix s1 decoded meeting s2
  assume a: "tryResolveByJoinUrl E joinUrl (entered joinUrl s) = (Inr None, s1)
        \<and> decodeURIComponent E joinUrl = Some decoded \<and> decoded \<noteq> joinUrl
        \<and> tryResolveByJoinUrl E decoded s1 = (Inr (Some meeting), s2)"
  then show "resolveOnlineMeeting E joinUrl s = (Inr (Some meeting), s2)"
    by (simp add: resolveOnlineMeeting_unfold)
  from a tryResolve_None_enc obtain f1 f2 where
    f: "encodeURIComponent E (joinUrlFilter joinUrl) = Some f1"
       "encodeURIComponent E (joinUrlFilter decoded) = Some f2" by blast
  from a have "trace s1 = trace s @ [ResolveCall joinUrl, GetOnlineMeetings f1]"
    using tryResolve_trace[of E joinUrl "entered joinUrl s" "Inr None" s1] f
    by (simp add: entered_trace)
  moreover from a have "trace s2 = trace s1 @ [GetOnlineMeetings f2]"
    using tryResolve_trace[of E decoded s1 "Inr (Some meeting)" s2] f by simp
  ultimately show "length (lookups (performed s s2)) = 2"
    by (simp add: performed_def)
qed

theorem resolveOnlineMeeting_exact_then_decoded_witness:
  "fst (tryResolveByJoinUrl (decodedOnly []) encodedUrl (entered encodedUrl start)) = Inr None
   \<and> decodeURIComponent (decodedOnly []) encodedUrl = Some decodedUrl
   \<and> decodedUrl \<noteq> encodedUrl
   \<and> fst (tryResolveByJoinUrl (decodedOnly []) decodedUrl
            (snd (tryResolveByJoinUrl (decodedOnly []) encodedUrl (entered encodedUrl start))))
       = Inr (Some weeklySync)
   \<and> fst (resolveOnlineMeeting (decodedOnly []) encodedUrl start) = Inr (Some weeklySync)
   \<and> length (lookups (performed start (snd (resolveOnlineMeeting (decodedOnly []) encodedUrl start)))) = 2"
proof -
  let ?E = "decodedOnly []"
  let ?s1 = "snd (tryResolveByJoinUrl ?E encodedUrl (entered encodedUrl start))"
  let ?s2 = "snd (tryResolveByJoinUrl ?E decodedUrl ?s1)"
  have h1: "fst (tryResolveByJoinUrl ?E encodedUrl (entered encodedUrl start)) = Inr None"
    by code_simp
  have h2: "decodeURIComponent ?E encodedUrl = Some decodedUrl" by code_simp
  have h3: "decodedUrl \<noteq> encodedUrl" by code_simp
  have h4: "fst (tryResolveByJoinUrl ?E decodedUrl ?s1) = Inr (Some weeklySync)" by code_simp
  from h1 have e1: "tryResolveByJoinUrl ?E encodedUrl (entered encodedUrl start) = (Inr None, ?s1)"
    by (simp add: prod_eq_iff)
  from h4 have e4: "tryResolveByJoinUrl ?E decodedUrl ?s1 = (Inr (Some weeklySync), ?s2)"
    by (simp add: prod_eq_iff)
  from resolveOnlineMeeting_exact_then_decoded [of ?E encodedUrl start] e1 h2 h3 e4
  have "resolveOnlineMeeting ?E encodedUrl start = (Inr (Some weeklySync), ?s2)
        \<and> length (lookups (performed start ?s2)) = 2" by blast
  with h1 h2 h3 h4 show ?thesis by simp
qed

section \<open>The subject of a resolved calendar event\<close>

text \<open>
  C9 does not hold as it is stated.  For an event whose subject is empty the meeting keeps
  the subject that Graph reports.
\<close>

theorem resolveCalendarEvent_subject_counterexample:
  "fst (resolveCalendarEvent (plainOnly []) (calendarEvent (Some []) (Some plainUrl)) start)
     = Inr (Some weeklySync)
   \<and> event_subject (calendarEvent (Some []) (Some plainUrl)) = Some []
   \<and> subject weeklySync \<noteq> []"
  by code_simp

text \<open>
  C9, amended.  For every calendar event that resolves to a meeting, the subject of the
  result is the subject of the event where the event has a subject that is not empty, and
  the subject of the resolved meeting otherwise; the identifier, the two timestamps and the
  join URL are those of the resolved meeting.
\<close>

theorem resolveCalendarEvent_subject:
  assumes "resolveCalendarEvent E event s = (Inr (Some meeting), s')"
  shows "\<exists>resolved. hasJoinUrl event
           \<and> resolveOnlineMeeting E (joinUrlOf event) s = (Inr (Some resolved), s')
           \<and> subject meeting
               = (if truthy (event_subject event) then the (event_subject event) else subject resolved)
           \<and> meeting_id meeting = meeting_id resolved
           \<and> startDateTime meeting = startDateTime resolved
           \<and> endDateTime meeting = endDateTime resolved
           \<and> joinWebUrl meeting = joinWebUrl resolved"
proof -
  from assms have h: "hasJoinUrl event"
    using resolveCalendarEvent_noUrl[of event E s] by auto
  obtain r0 s0 where r0: "resolveOnlineMeeting E (joinUrlOf event) s = (r0, s0)" by fastforce
  with assms h obtain resolved where "r0 = Inr (Some resolved)" "s0 = s'"
    "meeting = resolved\<lparr>subject :=
       (if truthy (event_subject event) then the (event_subject event) else subject resolved)\<rparr>"
    by (auto simp: resolveCalendarEvent_unfold split: sum.splits option.splits)
  with r0 h show ?thesis by (intro exI[of _ resolved]) simp
qed

theorem resolveCalendarEvent_subject_witness:
  "fst (resolveCalendarEvent (plainOnly []) (calendarEvent (Some (js ''Weekly'')) (Some plainUrl)) start)
     = Inr (Some (weeklySync\<lparr>subject := js ''Weekly''\<rparr>))
   \<and> fst (resolveOnlineMeeting (plainOnly []) plainUrl start) = Inr (Some weeklySync)
   \<and> subject (weeklySync\<lparr>subject := js ''Weekly''\<rparr>) = js ''Weekly''
   \<and> meeting_id (weeklySync\<lparr>subject := js ''Weekly''\<rparr>) = meeting_id weeklySync"
proof -
  let ?E = "plainOnly []"
  let ?e = "calendarEvent (Some (js ''Weekly'')) (Some plainUrl)"
  let ?m = "weeklySync\<lparr>subject := js ''Weekly''\<rparr>"
  have h: "fst (resolveCalendarEvent ?E ?e start) = Inr (Some ?m)" by code_simp
  then have e: "resolveCalendarEvent ?E ?e start = (Inr (Some ?m), snd (resolveCalendarEvent ?E ?e start))"
    by (simp add: prod_eq_iff)
  have j: "joinUrlOf ?e = plainUrl" by (simp add: joinUrlOf_def calendarEvent_def)
  have t: "truthy (event_subject ?e)" "the (event_subject ?e) = js ''Weekly''"
    by (simp_all add: truthy_def calendarEvent_def js_def)
  from resolveCalendarEvent_subject [OF e] j t obtain resolved where
    "resolveOnlineMeeting ?E plainUrl start = (Inr (Some resolved), snd (resolveCalendarEvent ?E ?e start))"
    "subject ?m = js ''Weekly''" "meeting_id ?m = meeting_id resolved" by auto
  moreover have "fst (resolveOnlineMeeting ?E plainUrl start) = Inr (Some weeklySync)" by code_simp
  ultimately show ?thesis using h by simp
qed

section \<open>The name filter comes before the resolver\<close>

text \<open>
  The resolver is entered for the events that pass the name filter, in their order, and for
  no other event; it is entered for all of them when the search returns, and for none, with
  the empty result, when no event passes.
\<close>

lemma findMeetingsByName_unfold:
  assumes "fetchCalendarEvents E (fst (buildDateRange E meetingDate)) (snd (buildDateRange E meetingDate)) (Finite 100) s
           = (Inr events, s1)"
  shows "findMeetingsByName E meetingName meetingDate s =
     (if filter (nameMatch E (toLowerCase E meetingName)) events = [] then (Inr [], s1)
      else resolveLoop E (filter (nameMatch E (toLowerCase E meetingName)) events) [] s1)"
proof -
  obtain a b where ab: "buildDateRange E meetingDate = (a, b)" by fastforce
  with assms have "fetchCalendarEvents E a b (Finite 100) s = (Inr events, s1)" by simp
  with ab show ?thesis by (simp add: findMeetingsByName_def Let_def)
qed

lemma findMeetingsByName_calls:
  assumes f: "fetchCalendarEvents E (fst (buildDateRange E meetingDate)) (snd (buildDateRange E meetingDate)) (Finite 100) s
           = (Inr events, s1)"
      and r: "findMeetingsByName E meetingName meetingDate s = (r, s')"
  shows "(\<exists>k\<le>length (filter (nameMatch E (toLowerCase E meetingName)) events).
            resolveCalls (performed s s')
            = map joinUrlOf (take k (filter (nameMatch E (toLowerCase E meetingName)) events)))
       \<and> ((\<exists>ms. r = Inr ms) \<longrightarrow>
            resolveCalls (performed s s')
            = map joinUrlOf (filter (nameMatch E (toLowerCase E meetingName)) events))
       \<and> (filter (nameMatch E (toLowerCase E meetingName)) events = [] \<longrightarrow>
            r = Inr [] \<and> s' = s1 \<and> resolveCalls (performed s s') = [])
       \<and> contentRequests (performed s s') = []"
proof -
  let ?sv = "filter (nameMatch E (toLowerCase E meetingName)) events"
  from fetchCalendarEvents_result[OF f] obtain c where c: "trace s1 = trace s @ [c]" "resolveCalls [c] = []" "contentRequests [c] = []"
    by auto
  show ?thesis
  proof (cases "?sv = []")
    case True
    with r f have "r = Inr []" "s' = s1" by (simp_all add: findMeetingsByName_unfold)
    with True c show ?thesis by (simp add: performed_append)
  next
    case False
    with r f have l: "resolveLoop E ?sv [] s1 = (r, s')" by (simp add: findMeetingsByName_unfold)
    have "list_all hasJoinUrl ?sv" by (simp add: list_all_iff nameMatch_def)
    from resolveLoop_trace[OF this l] obtain as k where
      ih: "trace s' = trace s1 @ as" "k \<le> length ?sv" "resolveCalls as = map joinUrlOf (take k ?sv)"
          "(\<exists>ms. r = Inr ms) \<longrightarrow> k = length ?sv" "contentRequests as = []" by blast
    with c have p: "performed s s' = c # as" by (simp add: performed_append)
    from c have "resolveCalls (c # as) = resolveCalls as" "contentRequests (c # as) = contentRequests as"
      using resolveCalls_append[of "[c]" as] contentRequests_append[of "[c]" as] by simp_all
    with p ih False show ?thesis by auto
  qed
qed

text \<open>
  C1.  The count is not exact for every call: \<open>resolveOnlineMeeting\<close> throws a URIError on a
  join URL that \<open>decodeURIComponent\<close> rejects, once the exact lookup has found nothing, and
  the exception ends the loop.  Here two events pass the filter, the lookups are refused
  with status 403, and the resolver is entered for the first event only.
\<close>

theorem findMeetingsByName_stops_at_URIError:
  "fst (findMeetingsByName
          (forbidden [calendarEvent (Some (js ''Sync A'')) (Some malformedUrl),
                      calendarEvent (Some (js ''Lunch'')) (Some decodedUrl),
                      calendarEvent (Some (js ''Sync B'')) (Some plainUrl)])
          (js ''sync'') None start) = Inl URIError
   \<and> map joinUrlOf
        (filter (nameMatch (forbidden []) (js ''sync''))
          [calendarEvent (Some (js ''Sync A'')) (Some malformedUrl),
           calendarEvent (Some (js ''Lunch'')) (Some decodedUrl),
           calendarEvent (Some (js ''Sync B'')) (Some plainUrl)])
       = [malformedUrl, plainUrl]
   \<and> resolveCalls (trace (snd (findMeetingsByName
          (forbidden [calendarEvent (Some (js ''Sync A'')) (Some malformedUrl),
                      calendarEvent (Some (js ''Lunch'')) (Some decodedUrl),
                      calendarEvent (Some (js ''Sync B'')) (Some plainUrl)])
          (js ''sync'') None start)))
       = [malformedUrl]"
  by code_simp

section \<open>Failures of the transport\<close>

text \<open>
  The calendar fetch never throws, and gives no events when the transport fails.  The
  resolver does not throw as long as the library functions accept the join URL and its
  decoded form, and its result is null when no lookup finds a meeting, whatever the reason.
\<close>

lemma fetchCalendarEvents_fail_soft:
  "(\<exists>events s'. fetchCalendarEvents E startDT endDT maxEvents s = (Inr events, s'))
   \<and> (fst (calendarView E startDT endDT (mathMin maxEvents (Finite 100)) (world s)) \<in> {Rejected, Ok Unreadable}
        \<or> (\<exists>status b. fst (calendarView E startDT endDT (mathMin maxEvents (Finite 100)) (world s)) = NotOk status b)
      \<longrightarrow> fst (fetchCalendarEvents E startDT endDT maxEvents s) = Inr [])"
  by (auto simp: fetchCalendarEvents_def graphGetSafe_def graphGet_def readBody_def Let_def
      split: prod.splits sum.splits reply.splits body.splits option.splits)

lemma resolveOnlineMeeting_soft_for_sound_urls:
  assumes "encodeURIComponent E (joinUrlFilter joinUrl) \<noteq> None"
      and "decodeURIComponent E joinUrl = Some decoded"
      and "encodeURIComponent E (joinUrlFilter decoded) \<noteq> None"
  shows "\<exists>v s'. resolveOnlineMeeting E joinUrl s = (Inr v, s')"
proof -
  obtain r1 s1 where t1: "tryResolveByJoinUrl E joinUrl (entered joinUrl s) = (r1, s1)" by fastforce
  with assms(1) tryResolve_enc_ok obtain v1 where v1: "r1 = Inr v1" by blast
  obtain r2 s2 where t2: "tryResolveByJoinUrl E decoded s1 = (r2, s2)" by fastforce
  with assms(3) tryResolve_enc_ok obtain v2 where v2: "r2 = Inr v2" by blast
  from t1 t2 v1 v2 assms(2) show ?thesis
    by (cases v1) (auto simp: resolveOnlineMeeting_unfold)
qed

lemma tryResolve_finds_nothing:
  assumes "encodeURIComponent E (joinUrlFilter u) = Some f"
      and "\<forall>m ms. fst (onlineMeetings E f (world s)) \<noteq> Ok (Parsed (Some (m # ms)))"
  shows "fst (tryResolveByJoinUrl E u s) = Inr None"
proof -
  obtain r w where rw: "onlineMeetings E f (world s) = (r, w)" by fastforce
  with assms(2) have "\<forall>m ms. r \<noteq> Ok (Parsed (Some (m # ms)))" by simp
  with rw assms(1) show ?thesis
    by (cases r rule: reply.exhaust)
       (auto simp: tryResolveByJoinUrl_def graphGetSafe_def graphGet_def readBody_def Let_def
          split: body.splits option.splits list.splits)
qed

lemma resolveOnlineMeeting_not_found:
  assumes "encodeURIComponent E (joinUrlFilter joinUrl) \<noteq> None"
      and "decodeURIComponent E joinUrl = Some decoded"
      and "encodeURIComponent E (joinUrlFilter decoded) \<noteq> None"
      and "\<forall>f w m ms. fst (onlineMeetings E f w) \<noteq> Ok (Parsed (Some (m # ms)))"
  shows "fst (resolveOnlineMeeting E joinUrl s) = Inr None"
proof -
  from assms(1,3) obtain f1 f2 where
    f: "encodeURIComponent E (joinUrlFilter joinUrl) = Some f1"
       "encodeURIComponent E (joinUrlFilter decoded) = Some f2" by auto
  obtain r1 s1 where t1: "tryResolveByJoinUrl E joinUrl (entered joinUrl s) = (r1, s1)" by fastforce
  with tryResolve_finds_nothing[OF f(1), of "entered joinUrl s"] assms(4)
  have r1: "r1 = Inr None" by simp
  obtain r2 s2 where t2: "tryResolveByJoinUrl E decoded s1 = (r2, s2)" by fastforce
  with tryResolve_finds_nothing[OF f(2), of s1] assms(4) have r2: "r2 = Inr None" by simp
  from t1 t2 r1 r2 assms(2) show ?thesis by (simp add: resolveOnlineMeeting_unfold)
qed

text \<open>
  C6.  The resolver can throw: for the join URL \<open>https://m.example/r%E9\<close>, whose lookup is
  refused with status 403, \<open>decodeURIComponent\<close> throws a URIError that nothing catches.
\<close>

theorem resolveOnlineMeeting_throws_URIError:
  "fst (resolveOnlineMeeting (forbidden []) malformedUrl start) = Inl URIError
   \<and> lookups (trace (snd (resolveOnlineMeeting (forbidden []) malformedUrl start)))
       = [the (ecmaEncodeURIComponent (joinUrlFilter malformedUrl))]
   \<and> ecmaDecodeURIComponent malformedUrl = None"
  by code_simp
section \<open>The limit of the meeting list\<close>

text \<open>Whole numbers among the numbers of the language.\<close>

lemma greaterEq_whole: "greaterEq (Finite (of_nat n)) (whole k) = (k \<le> int n)"
proof -
  have "(of_nat n :: rat) = of_int (int n)" by simp
  then show ?thesis unfolding greaterEq_def whole_def lessEq.simps by (simp only: of_int_le_iff)
qed

lemma mathMin_whole: "mathMin (whole a) (whole b) = whole (min a b)"
  by (simp add: mathMin_def whole_def min_def)

lemma whole_numeral: "Finite (numeral n) = whole (numeral n)"
  by (simp add: whole_def)

lemma listLoop_length:
  "listLoop E (whole k) es acc s = (Inr ms, s') \<Longrightarrow> int (length ms) \<le> max k (int (length acc))"
proof (induction es arbitrary: acc s)
  case Nil then show ?case by simp
next
  case (Cons e es)
  show ?case
  proof (cases "k \<le> int (length acc)")
    case True with Cons.prems show ?thesis by (simp add: greaterEq_whole)
  next
    case False
    obtain r1 s1 where r1: "resolveCalendarEvent E e s = (r1, s1)" by fastforce
    show ?thesis
    proof (cases r1)
      case (Inl err) with Cons.prems False r1 show ?thesis by (simp add: greaterEq_whole)
    next
      case (Inr v)
      let ?acc = "case v of None \<Rightarrow> acc | Some m \<Rightarrow> acc @ [m]"
      from Inr Cons.prems r1 False have "listLoop E (whole k) es ?acc s1 = (Inr ms, s')"
        by (simp add: greaterEq_whole split: option.splits)
      from Cons.IH[OF this] False show ?thesis by (cases v) auto
    qed
  qed
qed

lemma listLoop_early_exit:
  "listLoop E (whole k) es1 acc s = (Inr ms, s') \<Longrightarrow> k \<le> int (length ms)
   \<Longrightarrow> listLoop E (whole k) (es1 @ es2) acc s = (Inr ms, s')"
proof (induction es1 arbitrary: acc s)
  case Nil then show ?case by (cases es2) (auto simp: greaterEq_whole)
next
  case (Cons e es)
  show ?case
  proof (cases "k \<le> int (length acc)")
    case True with Cons.prems show ?thesis by (simp add: greaterEq_whole)
  next
    case False
    obtain r1 s1 where r1: "resolveCalendarEvent E e s = (r1, s1)" by fastforce
    show ?thesis
    proof (cases r1)
      case (Inl err) with Cons.prems False r1 show ?thesis by (simp add: greaterEq_whole)
    next
      case (Inr v)
      let ?acc = "case v of None \<Rightarrow> acc | Some m \<Rightarrow> acc @ [m]"
      from Inr Cons.prems r1 False have "listLoop E (whole k) es ?acc s1 = (Inr ms, s')"
        by (simp add: greaterEq_whole split: option.splits)
      from Cons.IH[OF this Cons.prems(2)] Inr r1 False show ?thesis
        by (simp add: greaterEq_whole split: option.splits)
    qed
  qed
qed

lemma listLoop_calls:
  "list_all hasJoinUrl es \<Longrightarrow> listLoop E (whole k) es acc s = (Inr ms, s') \<Longrightarrow>
     \<exists>as. trace s' = trace s @ as
        \<and> length (resolveCalls as) + length acc = length ms + length (failedAttempts E (whole k) es acc s)
        \<and> length (resolveCalls as) \<le> length es"
proof (induction es arbitrary: acc s)
  case Nil then show ?case by simp
next
  case (Cons e es)
  show ?case
  proof (cases "k \<le> int (length acc)")
    case True with Cons.prems show ?thesis by (simp add: greaterEq_whole)
  next
    case False
    obtain r1 s1 where r1: "resolveCalendarEvent E e s = (r1, s1)" by fastforce
    from Cons.prems have he: "hasJoinUrl e" and hes: "list_all hasJoinUrl es" by simp_all
    from resolveCalendarEvent_trace[OF he r1] obtain as1 where
      as1: "trace s1 = trace s @ as1" "resolveCalls as1 = [joinUrlOf e]" by blast
    show ?thesis
    proof (cases r1)
      case (Inl err) with Cons.prems False r1 show ?thesis by (simp add: greaterEq_whole)
    next
      case (Inr v)
      let ?acc = "case v of None \<Rightarrow> acc | Some m \<Rightarrow> acc @ [m]"
      from Inr Cons.prems r1 False have "listLoop E (whole k) es ?acc s1 = (Inr ms, s')"
        by (simp add: greaterEq_whole split: option.splits)
      from Cons.IH[OF hes this] obtain as where
        ih: "trace s' = trace s1 @ as"
            "length (resolveCalls as) + length ?acc
               = length ms + length (failedAttempts E (whole k) es ?acc s1)"
            "length (resolveCalls as) \<le> length es" by blast
      with as1 Inr r1 False show ?thesis
        by (intro exI[of _ "as1 @ as"]) (cases v; simp add: resolveCalls_append greaterEq_whole)
    qed
  qed
qed

lemma listLoop_calls_bound:
  "list_all hasJoinUrl es \<Longrightarrow> listLoop E (whole k) es acc s = (r, s') \<Longrightarrow>
     \<exists>as. trace s' = trace s @ as
        \<and> int (length (resolveCalls as)) + int (length acc)
            \<le> max k (int (length acc)) + int (length (failedAttempts E (whole k) es acc s))
        \<and> length (resolveCalls as) \<le> length es"
proof (induction es arbitrary: acc s)
  case Nil then show ?case by simp
next
  case (Cons e es)
  show ?case
  proof (cases "k \<le> int (length acc)")
    case True with Cons.prems show ?thesis by (simp add: greaterEq_whole)
  next
    case False
    obtain r1 s1 where r1: "resolveCalendarEvent E e s = (r1, s1)" by fastforce
    from Cons.prems have he: "hasJoinUrl e" and hes: "list_all hasJoinUrl es" by simp_all
    from resolveCalendarEvent_trace[OF he r1] obtain as1 where
      as1: "trace s1 = trace s @ as1" "resolveCalls as1 = [joinUrlOf e]" by blast
    show ?thesis
    proof (cases r1)
      case (Inl err)
      with Cons.prems False r1 have "s' = s1" by (simp add: greaterEq_whole)
      with as1 Inl r1 False show ?thesis by (intro exI[of _ as1]) (simp add: greaterEq_whole)
    next
      case (Inr v)
      let ?acc = "case v of None \<Rightarrow> acc | Some m \<Rightarrow> acc @ [m]"
      from Inr Cons.prems r1 False have "listLoop E (whole k) es ?acc s1 = (r, s')"
        by (simp add: greaterEq_whole split: option.splits)
      from Cons.IH[OF hes this] obtain as where
        ih: "trace s' = trace s1 @ as"
            "int (length (resolveCalls as)) + int (length ?acc)
               \<le> max k (int (length ?acc)) + int (length (failedAttempts E (whole k) es ?acc s1))"
            "length (resolveCalls as) \<le> length es" by blast
      with as1 Inr r1 False show ?thesis
        by (intro exI[of _ "as1 @ as"]) (cases v; simp add: resolveCalls_append greaterEq_whole)
    qed
  qed
qed

text \<open>
  A run of the loop over events that all resolve, with a limit that is not reached before
  the last of them: every event gives a meeting.
\<close>

lemma listLoop_all_resolved:
  assumes "\<forall>s. fst (resolveCalendarEvent E e s) = Inr (Some m)"
      and "\<forall>j<n. \<not> greaterEq (Finite (of_nat (length acc + j))) limit"
  shows "fst (listLoop E limit (replicate n e) acc s) = Inr (acc @ replicate n m)"
  using assms(2)
proof (induction n arbitrary: acc s)
  case 0 show ?case by simp
next
  case (Suc n)
  have "0 < Suc n" by simp
  with Suc.prems have "\<not> greaterEq (Finite (of_nat (length acc + 0))) limit" by blast
  then have now: "\<not> greaterEq (Finite (of_nat (length acc))) limit" by simp
  obtain r1 s1 where r1: "resolveCalendarEvent E e s = (r1, s1)" by fastforce
  from assms(1) have "fst (resolveCalendarEvent E e s) = Inr (Some m)" by blast
  with r1 have r: "r1 = Inr (Some m)" by simp
  have "\<forall>j<n. \<not> greaterEq (Finite (of_nat (length (acc @ [m]) + j))) limit"
  proof (intro allI impI)
    fix j assume "j < n"
    then have "Suc j < Suc n" by simp
    with Suc.prems have "\<not> greaterEq (Finite (of_nat (length acc + Suc j))) limit" by blast
    moreover have "length (acc @ [m]) + j = length acc + Suc j" by simp
    ultimately show "\<not> greaterEq (Finite (of_nat (length (acc @ [m]) + j))) limit" by simp
  qed
  from Suc.IH[OF this] have "fst (listLoop E limit (replicate n e) (acc @ [m]) s1)
      = Inr ((acc @ [m]) @ replicate n m)" .
  with now r1 r show ?case by (simp add: replicate_app_Cons_same)
qed

lemma listMeetings_all_resolved:
  assumes "\<forall>s. fst (resolveCalendarEvent (findsAll (replicate n e)) e s) = Inr (Some m)"
      and "hasJoinUrl e"
      and "\<forall>j<n. \<not> greaterEq (Finite (of_nat j)) (limitOf topOpt)"
  shows "fst (listMeetings (findsAll (replicate n e)) topOpt filterDate s) = Inr (replicate n m)"
proof -
  let ?E = "findsAll (replicate n e)"
  obtain a b where ab: "buildDateRange ?E filterDate = (a, b)" by fastforce
  let ?top = "mathMin (multiply ?E (limitOf topOpt) (Finite 3)) (Finite 100)"
  obtain s1 where f: "fetchCalendarEvents ?E a b ?top s = (Inr (replicate n e), s1)"
    by (simp add: fetchCalendarEvents_def graphGetSafe_def graphGet_def readBody_def findsAll_def
          scriptedEnv_def Let_def)
  from assms(2) have c: "filter hasJoinUrl (replicate n e) = replicate n e" by simp
  from assms(3) have "\<forall>j<n. \<not> greaterEq (Finite (of_nat (length ([]::OnlineMeeting list) + j))) (limitOf topOpt)"
    by simp
  from listLoop_all_resolved[OF assms(1) this]
  have "fst (listLoop ?E (limitOf topOpt) (replicate n e) [] s1) = Inr (replicate n m)" by simp
  with ab f c show ?thesis by (simp add: listMeetings_def Let_def limitOf_def)
qed

lemma findsAll_resolves_plainUrl:
  "fst (resolveCalendarEvent (findsAll evs) (calendarEvent (Some (js ''A'')) (Some plainUrl)) s)
     = Inr (Some (weeklySync\<lparr>subject := js ''A''\<rparr>))"
proof -
  have "ecmaEncodeURIComponent (joinUrlFilter plainUrl) \<noteq> None" by code_simp
  then obtain f where f: "ecmaEncodeURIComponent (joinUrlFilter plainUrl) = Some f" by blast
  have u: "plainUrl \<noteq> []" by code_simp
  have j: "js ''A'' \<noteq> []" by code_simp
  let ?s = "s\<lparr>trace := trace s @ [ResolveCall plainUrl]\<rparr>"
  obtain r1 s1 where t: "tryResolveByJoinUrl (findsAll evs) plainUrl ?s = (r1, s1)" by fastforce
  with f have r1: "r1 = Inr (Some weeklySync)"
    by (auto simp: tryResolveByJoinUrl_def graphGetSafe_def graphGet_def readBody_def findsAll_def
          scriptedEnv_def Let_def)
  from t r1 have "resolveOnlineMeeting (findsAll evs) plainUrl s = (Inr (Some weeklySync), s1)"
    by (simp add: resolveOnlineMeeting_def Let_def)
  with u j show ?thesis by (simp add: resolveCalendarEvent_def calendarEvent_def)
qed

text \<open>
  C8 does not hold as it is stated.  \<open>listMeetings\<close> does not cut its limit down to 50: asked
  for 51 meetings over 51 events that resolve, it returns 51.  And the limit need not be a
  whole number: with the limit 2.5, which the handler passes on as it is, three meetings
  are returned, since the loop only leaves once the count is not below the limit.
\<close>

theorem listMeetings_no_clamp_counterexample:
  "fst (listMeetings (findsAll (replicate 51 (calendarEvent (Some (js ''A'')) (Some plainUrl))))
          (Some (Finite 51)) None start)
     = Inr (replicate 51 (weeklySync\<lparr>subject := js ''A''\<rparr>))
   \<and> \<not> length (replicate 51 (weeklySync\<lparr>subject := js ''A''\<rparr>)) \<le> 50
   \<and> fst (listMeetings (findsAll (replicate 3 (calendarEvent (Some (js ''A'')) (Some plainUrl))))
          (Some (mathMin (Finite (5 / 2)) (Finite 50))) None start)
     = Inr (replicate 3 (weeklySync\<lparr>subject := js ''A''\<rparr>))
   \<and> \<not> lessEq (Finite (of_nat (length (replicate 3 (weeklySync\<lparr>subject := js ''A''\<rparr>)))))
          (mathMin (Finite (5 / 2)) (Finite 50))"
proof -
  let ?e = "calendarEvent (Some (js ''A'')) (Some plainUrl)"
  have h: "hasJoinUrl ?e" by code_simp
  have a: "\<forall>j<51. \<not> greaterEq (Finite (of_nat j)) (limitOf (Some (Finite 51)))"
    using greaterEq_whole[of _ 51] by (simp add: limitOf_def whole_def)
  have m: "mathMin (Finite (5 / 2)) (Finite 50) = Finite (5 / 2)" by (simp add: mathMin_def)
  have "\<not> greaterEq (Finite (of_nat j)) (Finite (5 / 2))" if "j < 3" for j
  proof -
    from that have "j = 0 \<or> j = 1 \<or> j = 2" by auto
    then show ?thesis by (auto simp: greaterEq_def)
  qed
  then have b: "\<forall>j<3. \<not> greaterEq (Finite (of_nat j)) (limitOf (Some (mathMin (Finite (5 / 2)) (Finite 50))))"
    by (simp add: limitOf_def m)
  have c: "\<not> lessEq (Finite (of_nat (length (replicate 3 (weeklySync\<lparr>subject := js ''A''\<rparr>)))))
          (mathMin (Finite (5 / 2)) (Finite 50))" by (simp add: m)
  from listMeetings_all_resolved[OF _ h a] listMeetings_all_resolved[OF _ h b] c
  show ?thesis by (simp add: findsAll_resolves_plainUrl)
qed

lemma listMeetings_length:
  assumes "limitOf topOpt = whole k"
      and "listMeetings E topOpt filterDate s = (Inr meetings, s')"
  shows "length meetings \<le> nat k"
proof -
  obtain a b where ab: "buildDateRange E filterDate = (a, b)" by fastforce
  obtain r1 s1 where f: "fetchCalendarEvents E a b
      (mathMin (multiply E (whole k) (Finite 3)) (Finite 100)) s = (r1, s1)" by fastforce
  from fetchCalendarEvents_result[OF f] obtain events where e: "r1 = Inr events" by blast
  from assms ab f e have "listLoop E (whole k) (filter hasJoinUrl events) [] s1 = (Inr meetings, s')"
    by (simp add: listMeetings_def Let_def limitOf_def)
  from listLoop_length[OF this] show ?thesis by simp
qed

text \<open>
  C8, amended.  The handler calls \<open>listMeetings\<close> with \<open>Math.min(limit, 50)\<close>, the limit being
  the number given or 10; so for a whole-number limit \<open>l\<close> the list shown holds at most
  \<open>min l 50\<close> meetings, none when that is below one.  \<open>listMeetings\<close> itself has no bound of
  50: it enforces the limit it is given in its loop, and what it cuts down is the number of
  events it asks the calendar for (\<open>limit * 3\<close>, at most 100, cut down once more by the
  calendar fetch).  For a whole-number limit \<open>k\<close>: however a run ends, the resolver was
  entered at most \<open>k\<close> times plus once for each failed attempt, and never more often than
  there are candidates; a list that is returned has at most \<open>k\<close> meetings (none for a limit
  below one), the resolver was entered once for each of them and once for each failed
  attempt, and once \<open>k\<close> meetings are resolved further candidates change nothing.
\<close>

theorem listMeetings_bounded_by_limit:
  assumes "limitOf topOpt = whole k"
      and "fetchCalendarEvents E (fst (buildDateRange E filterDate)) (snd (buildDateRange E filterDate))
             (mathMin (multiply E (whole k) (Finite 3)) (Finite 100)) s = (Inr events, s1)"
  shows "handleListRecentMeetings E filterDate limitArg s
           = recentReply E filterDate
               (listMeetings E (Some (mathMin (limitOf limitArg) (Finite 50))) filterDate s)
       \<and> (\<forall>l meetings s'.
             limitOf limitArg = whole l
             \<and> listMeetings E (Some (mathMin (limitOf limitArg) (Finite 50))) filterDate s
                 = (Inr meetings, s')
             \<longrightarrow> mathMin (limitOf limitArg) (Finite 50) = whole (min l 50)
                 \<and> length meetings \<le> nat (min l 50) \<and> length meetings \<le> 50)
       \<and> (\<forall>r s'. listMeetings E topOpt filterDate s = (r, s') \<longrightarrow>
             (\<exists>startDT endDT n. hd (performed s s') = GetCalendarView startDT endDT n
                \<and> n = mathMin (mathMin (multiply E (whole k) (Finite 3)) (Finite 100)) (Finite 100)
                \<and> (n = NaN \<or> lessEq n (Finite 100)))
             \<and> length (resolveCalls (performed s s'))
                 \<le> nat k + length (failedAttempts E (whole k) (filter hasJoinUrl events) [] s1)
             \<and> length (resolveCalls (performed s s')) \<le> length (filter hasJoinUrl events))
       \<and> (\<forall>meetings s'. listMeetings E topOpt filterDate s = (Inr meetings, s') \<longrightarrow>
             length meetings \<le> nat k
             \<and> length (resolveCalls (performed s s'))
                 = length meetings
                   + length (failedAttempts E (whole k) (filter hasJoinUrl events) [] s1)
             \<and> (\<forall>more. k \<le> int (length meetings) \<longrightarrow>
                   listLoop E (whole k) (filter hasJoinUrl events @ more) [] s1 = (Inr meetings, s')))"
proof (intro conjI allI impI)
  show "handleListRecentMeetings E filterDate limitArg s
           = recentReply E filterDate
               (listMeetings E (Some (mathMin (limitOf limitArg) (Finite 50))) filterDate s)"
    by (simp add: handleListRecentMeetings_def Let_def limitOf_def)
next
  obtain a b where ab: "buildDateRange E filterDate = (a, b)" by fastforce
  let ?top = "mathMin (multiply E (whole k) (Finite 3)) (Finite 100)"
  from ab assms(2) have f: "fetchCalendarEvents E a b ?top s = (Inr events, s1)" by simp
  let ?c = "GetCalendarView a b (mathMin ?top (Finite 100))"
  from fetchCalendarEvents_result[OF f] have c: "trace s1 = trace s @ [?c]" by simp
  have cand: "list_all hasJoinUrl (filter hasJoinUrl events)" by (simp add: list_all_iff)
  {
    fix l meetings s'
    assume h: "limitOf limitArg = whole l
             \<and> listMeetings E (Some (mathMin (limitOf limitArg) (Finite 50))) filterDate s
                 = (Inr meetings, s')"
    then have m: "mathMin (limitOf limitArg) (Finite 50) = whole (min l 50)"
      by (simp add: whole_numeral mathMin_whole)
    then show "mathMin (limitOf limitArg) (Finite 50) = whole (min l 50)" .
    from m have "limitOf (Some (mathMin (limitOf limitArg) (Finite 50))) = whole (min l 50)"
      by (simp add: limitOf_def)
    from listMeetings_length[OF this] h
    show "length meetings \<le> nat (min l 50)" by blast
    then show "length meetings \<le> 50" by simp
  }
  {
    fix r s' assume r: "listMeetings E topOpt filterDate s = (r, s')"
    with ab f assms(1) have l: "listLoop E (whole k) (filter hasJoinUrl events) [] s1 = (r, s')"
      by (simp add: listMeetings_def Let_def limitOf_def)
    from listLoop_calls_bound[OF cand l] obtain as where
      as: "trace s' = trace s1 @ as"
          "int (length (resolveCalls as))
             \<le> max k 0 + int (length (failedAttempts E (whole k) (filter hasJoinUrl events) [] s1))"
          "length (resolveCalls as) \<le> length (filter hasJoinUrl events)" by auto
    with c have p: "performed s s' = ?c # as" by (simp add: performed_append)
    have "mathMin ?top (Finite 100) = NaN \<or> lessEq (mathMin ?top (Finite 100)) (Finite 100)"
      by (cases "multiply E (whole k) (Finite 3)") (auto simp: mathMin_def)
    with p show "\<exists>startDT endDT n. hd (performed s s') = GetCalendarView startDT endDT n
                \<and> n = mathMin ?top (Finite 100) \<and> (n = NaN \<or> lessEq n (Finite 100))" by simp
    from p as(2) show "length (resolveCalls (performed s s'))
                 \<le> nat k + length (failedAttempts E (whole k) (filter hasJoinUrl events) [] s1)"
      by simp
    from p as(3) show "length (resolveCalls (performed s s')) \<le> length (filter hasJoinUrl events)"
      by simp
  }
  {
    fix meetings s' assume r: "listMeetings E topOpt filterDate s = (Inr meetings, s')"
    with ab f assms(1) have l: "listLoop E (whole k) (filter hasJoinUrl events) [] s1 = (Inr meetings, s')"
      by (simp add: listMeetings_def Let_def limitOf_def)
    from listLoop_length[OF l] show len: "length meetings \<le> nat k" by simp
    from listLoop_calls[OF cand l] obtain as where
      as: "trace s' = trace s1 @ as"
          "length (resolveCalls as)
             = length meetings + length (failedAttempts E (whole k) (filter hasJoinUrl events) [] s1)"
      by auto
    with c have p: "performed s s' = ?c # as" by (simp add: performed_append)
    with as(2) show "length (resolveCalls (performed s s'))
                 = length meetings + length (failedAttempts E (whole k) (filter hasJoinUrl events) [] s1)"
      by simp
    {
      fix more assume "k \<le> int (length meetings)"
      with listLoop_early_exit[OF l]
      show "listLoop E (whole k) (filter hasJoinUrl events @ more) [] s1 = (Inr meetings, s')" by simp
    }
  }
qed

theorem listMeetings_bounded_by_limit_witness:
  "limitOf (Some (mathMin (limitOf (Some (Finite 2))) (Finite 50))) = whole 2
   \<and> fst (fetchCalendarEvents (findsAll fourEvents)
          (fst (buildDateRange (findsAll fourEvents) None)) (snd (buildDateRange (findsAll fourEvents) None))
          (mathMin (multiply (findsAll fourEvents) (whole 2) (Finite 3)) (Finite 100)) start)
       = Inr fourEvents
   \<and> fst (listMeetings (findsAll fourEvents) (Some (mathMin (limitOf (Some (Finite 2))) (Finite 50)))
          None start)
       = Inr [weeklySync\<lparr>subject := js ''A''\<rparr>, weeklySync\<lparr>subject := js ''C''\<rparr>]
   \<and> length (filter hasJoinUrl fourEvents) = 3
   \<and> length (resolveCalls (performed start (snd (listMeetings (findsAll fourEvents)
          (Some (mathMin (limitOf (Some (Finite 2))) (Finite 50))) None start)))) = 2
   \<and> length [weeklySync\<lparr>subject := js ''A''\<rparr>, weeklySync\<lparr>subject := js ''C''\<rparr>] \<le> nat (min 2 50)
   \<and> handleListRecentMeetings (findsAll fourEvents) None (Some (Finite 2)) start
       = recentReply (findsAll fourEvents) None
           (listMeetings (findsAll fourEvents) (Some (mathMin (limitOf (Some (Finite 2))) (Finite 50)))
              None start)"
proof -
  let ?E = "findsAll fourEvents"
  let ?ms = "[weeklySync\<lparr>subject := js ''A''\<rparr>, weeklySync\<lparr>subject := js ''C''\<rparr>]"
  let ?f = "fetchCalendarEvents ?E (fst (buildDateRange ?E None)) (snd (buildDateRange ?E None))
          (mathMin (multiply ?E (whole 2) (Finite 3)) (Finite 100)) start"
  let ?top = "Some (mathMin (limitOf (Some (Finite 2))) (Finite 50))"
  let ?l = "listMeetings ?E ?top None start"
  have lim: "limitOf ?top = whole 2" by (simp add: limitOf_def mathMin_def whole_def)
  have arg: "limitOf (Some (Finite 2)) = whole 2" by (simp add: limitOf_def whole_def)
  have h1: "fst ?f = Inr fourEvents" by code_simp
  have h2: "fst ?l = Inr ?ms" by code_simp
  have h3: "length (filter hasJoinUrl fourEvents) = 3" by code_simp
  have h4: "failedAttempts ?E (whole 2) (filter hasJoinUrl fourEvents) [] (snd ?f) = []" by code_simp
  from h1 have e1: "?f = (Inr fourEvents, snd ?f)" by (simp add: prod_eq_iff)
  from h2 have e2: "?l = (Inr ?ms, snd ?l)" by (simp add: prod_eq_iff)
  note t = listMeetings_bounded_by_limit [of ?top 2 ?E None start fourEvents "snd ?f" "Some (Finite 2)",
      OF lim e1]
  from t have hd: "handleListRecentMeetings ?E None (Some (Finite 2)) start
       = recentReply ?E None ?l" by blast
  from t arg e2 have b: "length ?ms \<le> nat (min 2 50)" by blast
  from t e2 have "length (resolveCalls (performed start (snd ?l)))
          = length ?ms + length (failedAttempts ?E (whole 2) (filter hasJoinUrl fourEvents) [] (snd ?f))"
    by blast
  with h4 have c: "length (resolveCalls (performed start (snd ?l))) = 2" by simp
  from lim h1 h2 h3 c b hd show ?thesis by (intro conjI)
qed

section \<open>A meeting without transcript\<close>

lemma listTranscripts_trace:
  "listTranscripts E mid s = (r, s') \<Longrightarrow> trace s' = trace s @ [GetTranscripts mid]"
  by (auto simp: listTranscripts_def split: prod.splits sum.splits dest: graphGet_trace)

lemma startsWith_append: "startsWith (b @ c) b"
  by (induction b) auto

lemma startsWith_includes: "startsWith x n \<Longrightarrow> includesStr x n"
  by (cases x; cases n) auto

lemma includesStr_middle: "includesStr (a @ b @ c) b"
  by (induction a) (auto simp: startsWith_append startsWith_includes)

lemma noTranscriptText_hd: "hd (noTranscriptText meeting) = 0x4D"
  by (simp add: noTranscriptText_def js_def)

lemma noMeetingText_hd: "hd (noMeetingText name date) = 0x4E"
  by (simp add: noMeetingText_def js_def)

lemma texts_differ: "noTranscriptText meeting \<noteq> noMeetingText name date"
proof
  assume "noTranscriptText meeting = noMeetingText name date"
  then have "hd (noTranscriptText meeting) = hd (noMeetingText name date)" by simp
  then show False by (simp add: noTranscriptText_hd noMeetingText_hd)
qed

lemma findMeetingsByName_no_content:
  assumes "findMeetingsByName E meetingName meetingDate s = (r, s')"
  shows "\<exists>as. trace s' = trace s @ as \<and> contentRequests as = []"
proof -
  obtain r1 s1 where f: "fetchCalendarEvents E (fst (buildDateRange E meetingDate))
        (snd (buildDateRange E meetingDate)) (Finite 100) s = (r1, s1)" by fastforce
  from fetchCalendarEvents_result[OF f] obtain events where e: "r1 = Inr events"
    and t1: "trace s1 = trace s @ [GetCalendarView (fst (buildDateRange E meetingDate))
        (snd (buildDateRange E meetingDate)) (mathMin (Finite 100) (Finite 100))]" by auto
  let ?sv = "filter (nameMatch E (toLowerCase E meetingName)) events"
  show ?thesis
  proof (cases "?sv = []")
    case True
    with assms f e have "s' = s1" by (simp add: findMeetingsByName_unfold)
    with t1 show ?thesis by simp
  next
    case False
    with assms f e have l: "resolveLoop E ?sv [] s1 = (r, s')" by (simp add: findMeetingsByName_unfold)
    have "list_all hasJoinUrl ?sv" by (simp add: list_all_iff nameMatch_def)
    from resolveLoop_trace[OF this l] obtain as where
      "trace s' = trace s1 @ as" "contentRequests as = []" by blast
    with t1 show ?thesis by (simp add: contentRequests_append)
  qed
qed

text \<open>
  C7.  When the search finds a meeting and the list of its transcripts is empty, the handler
  answers with the text that names the subject of the meeting and says that no transcript is
  available; it stops in the state in which the list arrived, and no request for transcript
  content has been sent.  That text differs from every text for a search without result,
  which names the search term and, where one is given, the date.
\<close>

theorem handleGetMeetingTranscript_without_transcript:
  "(\<forall>meeting others s1 s2.
      truthy meetingName
      \<and> findMeetingsByName E (the meetingName) meetingDate s = (Inr (meeting # others), s1)
      \<and> listTranscripts E (meeting_id meeting) s1 = (Inr [], s2)
      \<longrightarrow> handleGetMeetingTranscript E meetingName meetingDate s
            = (Inr \<lparr>content_text = noTranscriptText meeting, isError = False\<rparr>, s2)
          \<and> contentRequests (performed s s2) = []
          \<and> includesStr (noTranscriptText meeting) (subject meeting)
          \<and> (\<forall>name date. noTranscriptText meeting \<noteq> noMeetingText name date))
   \<and> (\<forall>s1.
      truthy meetingName
      \<and> findMeetingsByName E (the meetingName) meetingDate s = (Inr [], s1)
      \<longrightarrow> handleGetMeetingTranscript E meetingName meetingDate s
            = (Inr \<lparr>content_text = noMeetingText (the meetingName) meetingDate, isError = False\<rparr>, s1)
          \<and> includesStr (noMeetingText (the meetingName) meetingDate) (the meetingName)
          \<and> (truthy meetingDate
               \<longrightarrow> includesStr (noMeetingText (the meetingName) meetingDate) (the meetingDate)))"
proof (intro conjI allI impI)
  fix meeting others s1 s2
  assume a: "truthy meetingName
      \<and> findMeetingsByName E (the meetingName) meetingDate s = (Inr (meeting # others), s1)
      \<and> listTranscripts E (meeting_id meeting) s1 = (Inr [], s2)"
  then show "handleGetMeetingTranscript E meetingName meetingDate s
            = (Inr \<lparr>content_text = noTranscriptText meeting, isError = False\<rparr>, s2)"
    by (simp add: handleGetMeetingTranscript_def)
  from a findMeetingsByName_no_content obtain as where
    "trace s1 = trace s @ as" "contentRequests as = []" by blast
  moreover from a have "trace s2 = trace s1 @ [GetTranscripts (meeting_id meeting)]"
    using listTranscripts_trace by blast
  ultimately show "contentRequests (performed s s2) = []"
    by (simp add: performed_def contentRequests_append)
  show "includesStr (noTranscriptText meeting) (subject meeting)"
    unfolding noTranscriptText_def
    using includesStr_middle[of "js ''Meeting '' @ [0x22]" "subject meeting"] by simp
  fix name date
  show "noTranscriptText meeting \<noteq> noMeetingText name date" by (rule texts_differ)
next
  fix s1
  assume a: "truthy meetingName
      \<and> findMeetingsByName E (the meetingName) meetingDate s = (Inr [], s1)"
  then show "handleGetMeetingTranscript E meetingName meetingDate s
            = (Inr \<lparr>content_text = noMeetingText (the meetingName) meetingDate, isError = False\<rparr>, s1)"
    by (simp add: handleGetMeetingTranscript_def)
  show "includesStr (noMeetingText (the meetingName) meetingDate) (the meetingName)"
    unfolding noMeetingText_def
    using includesStr_middle[of "js ''No meeting found matching '' @ [0x22]" "the meetingName"] by simp
  assume "truthy meetingDate"
  then show "includesStr (noMeetingText (the meetingName) meetingDate) (the meetingDate)"
    unfolding noMeetingText_def
    using includesStr_middle[of "js ''No meeting found matching '' @ [0x22] @ the meetingName @ [0x22] @ js '' on ''"
        "the meetingDate"] by simp
qed

theorem handleGetMeetingTranscript_without_transcript_witness:
  "truthy (Some (js ''sync''))
   \<and> fst (findMeetingsByName (plainOnly [calendarEvent (Some (js ''Weekly Sync'')) (Some plainUrl)])
            (js ''sync'') None start) = Inr [weeklySync\<lparr>subject := js ''Weekly Sync''\<rparr>]
   \<and> fst (listTranscripts (plainOnly [calendarEvent (Some (js ''Weekly Sync'')) (Some plainUrl)])
            (js ''MSo1'')
            (snd (findMeetingsByName (plainOnly [calendarEvent (Some (js ''Weekly Sync'')) (Some plainUrl)])
                   (js ''sync'') None start))) = Inr []
   \<and> fst (handleGetMeetingTranscript (plainOnly [calendarEvent (Some (js ''Weekly Sync'')) (Some plainUrl)])
            (Some (js ''sync'')) None start)
       = Inr \<lparr>content_text = noTranscriptText (weeklySync\<lparr>subject := js ''Weekly Sync''\<rparr>),
              isError = False\<rparr>
   \<and> noTranscriptText (weeklySync\<lparr>subject := js ''Weekly Sync''\<rparr>)
       = js ''Meeting '' @ [0x22] @ js ''Weekly Sync'' @ [0x22]
         @ js '' was found (2026-10-30T10:00:00Z) but has no transcript available. Ensure transcription was enabled during the meeting.''"
proof -
  let ?E = "plainOnly [calendarEvent (Some (js ''Weekly Sync'')) (Some plainUrl)]"
  let ?m = "weeklySync\<lparr>subject := js ''Weekly Sync''\<rparr>"
  let ?f = "findMeetingsByName ?E (js ''sync'') None start"
  let ?t = "listTranscripts ?E (js ''MSo1'') (snd ?f)"
  have h0: "truthy (Some (js ''sync''))" by code_simp
  have h1: "fst ?f = Inr [?m]" by code_simp
  have h2: "fst ?t = Inr []" by code_simp
  have h3: "noTranscriptText ?m
       = js ''Meeting '' @ [0x22] @ js ''Weekly Sync'' @ [0x22]
         @ js '' was found (2026-10-30T10:00:00Z) but has no transcript available. Ensure transcription was enabled during the meeting.''"
    by code_simp
  have mid: "meeting_id ?m = js ''MSo1''" by (simp add: weeklySync_def)
  from h1 have e1: "findMeetingsByName ?E (the (Some (js ''sync''))) None start = (Inr (?m # []), snd ?f)"
    by (simp add: prod_eq_iff)
  from h2 mid have e2: "listTranscripts ?E (meeting_id ?m) (snd ?f) = (Inr [], snd ?t)"
    by (simp add: prod_eq_iff)
  from handleGetMeetingTranscript_without_transcript [of "Some (js ''sync'')" ?E None start] h0 e1 e2
  have "handleGetMeetingTranscript ?E (Some (js ''sync'')) None start
            = (Inr \<lparr>content_text = noTranscriptText ?m, isError = False\<rparr>, snd ?t)"
    by blast
  with h0 h1 h2 h3 show ?thesis by simp
qed

end
